theory Spec2Isabelle
  imports Main
begin

section \<open>The FX graph minifier (functorch/_src/fx_minifier.py)\<close>

subsection \<open>Data model\<close>

text \<open>
  A node of an FX graph.  The source only ever distinguishes the operation kinds
  \<^verbatim>\<open>'placeholder'\<close> and \<^verbatim>\<open>'output'\<close> from all the others, which are
  collected in \<open>Operation\<close>.  A node is identified by its \<open>name\<close>, an abstract
  identifier; \<open>args\<close> holds the names of its operand nodes and \<open>target\<close> is the opaque
  payload.  \<open>concrete_value\<close> is the entry \<^verbatim>\<open>meta['concrete_value']\<close>, absent when
  it was never recorded.
\<close>

datatype opkind = Placeholder | Operation | Output

datatype val = Tensor nat | Scalar nat | Aggregate "val list"

record node =
  name :: nat
  op :: opkind
  target :: nat
  args :: "nat list"
  concrete_value :: "val option"

type_synonym graph = "node list"

record ReproState =
  graph :: "node list"
  inps :: "val list"

datatype error =
    ValueError
  | KeyError
  | AssertionError
  | LintError
  | RuntimeError string

text \<open>
  A computation that may raise returns \<open>error + 'a\<close>; one that in addition may fail
  to return at all is wrapped in \<open>option\<close>, with \<open>None\<close> for not returning.
\<close>

type_synonym 'a res = "(error + 'a) option"

text \<open>
  The collaborators that are not part of the source file: structural validation
  (\<^verbatim>\<open>Graph.lint\<close>), dead code elimination (\<^verbatim>\<open>Graph.eliminate_dead_code\<close>, which
  returns the rewritten graph and whether it changed anything), the failure predicate
  \<^verbatim>\<open>module_fails\<close> handed to the minifier, and the interpreter
  (\<^verbatim>\<open>Interpreter.run_node\<close>), which yields the value a node of the graph produces
  in the run on the given inputs, or the exception that executing the node raises
  there (an input that is missing for a placeholder, an operation that raises).
\<close>

record externals =
  lint :: "graph \<Rightarrow> bool"
  module_fails :: "graph \<Rightarrow> val list \<Rightarrow> bool"
  eliminate_dead_code_fx :: "graph \<Rightarrow> graph \<times> bool"
  run_node_super :: "graph \<Rightarrow> val list \<Rightarrow> node \<Rightarrow> error + val"

text \<open>
  Modelled from the spec: the consumers of a node are the nodes of the graph that
  reference it as an operand (the field \<^verbatim>\<open>Node.users\<close> of the FX library, which is
  not in the source file).  \<open>users\<close> lists them, \<open>users_idx\<close> lists their positions.
\<close>

definition users :: "graph \<Rightarrow> node \<Rightarrow> node list" where
  "users g n = filter (\<lambda>m. name n \<in> set (args m)) g"

definition users_idx :: "graph \<Rightarrow> nat \<Rightarrow> nat list" where
  "users_idx g i = filter (\<lambda>j. name (g ! i) \<in> set (args (g ! j))) [0..<length g]"

text \<open>
  Modelled from the spec: \<^verbatim>\<open>Graph.node_copy(node, lambda x: env[x])\<close> appends a copy
  of the node to the new graph, looking every operand up in \<open>env\<close>; an operand that was
  not copied before is a \<^verbatim>\<open>KeyError\<close>.  \<open>env\<close> is kept as the set of its keys.
\<close>

definition node_copy :: "graph \<Rightarrow> nat set \<Rightarrow> node \<Rightarrow> error + graph" where
  "node_copy new_graph env n =
     (if set (args n) \<subseteq> env then Inr (new_graph @ [n]) else Inl KeyError)"

text \<open>
  Modelled from the spec: \<^verbatim>\<open>Graph.output((new_node,))\<close> appends an output node
  with a name that is fresh in the graph and the given node as its only operand.
\<close>

definition fresh_name :: "graph \<Rightarrow> nat" where
  "fresh_name g = Suc (fold max (map name g) 0)"

definition output_node :: "graph \<Rightarrow> node \<Rightarrow> node" where
  "output_node g n =
     \<lparr>name = fresh_name g, op = Output, target = fresh_name g, args = [name n],
      concrete_value = None\<rparr>"

subsection \<open>Recording concrete values\<close>

fun has_tensor :: "val \<Rightarrow> bool" where
  "has_tensor (Tensor t) = True"
| "has_tensor (Scalar c) = False"
| "has_tensor (Aggregate vs) = (\<exists>v \<in> set vs. has_tensor v)"

text \<open>
  \<^verbatim>\<open>ConcreteProp.run_node\<close> returns the node as it is annotated, or the exception of the
  interpreter.
\<close>

definition run_node :: "externals \<Rightarrow> graph \<Rightarrow> val list \<Rightarrow> node \<Rightarrow> error + node" where
  "run_node E g is n =
     (case run_node_super E g is n of
        Inl e \<Rightarrow> Inl e
      | Inr result \<Rightarrow>
          Inr (if has_tensor result then n\<lparr>concrete_value := Some result\<rparr> else n))"

text \<open>
  \<^verbatim>\<open>ConcreteProp.propagate\<close> is \<^verbatim>\<open>Interpreter.run\<close>, which is not part of the
  source at hand.  Modelled from the spec: the graph is executed once, node by node in
  the order of the graph, each node being annotated by \<^verbatim>\<open>run_node\<close>; the first
  exception ends the run and is the result.  Otherwise \<^verbatim>\<open>propagate\<close> yields the
  annotated graph.
\<close>

fun run_nodes :: "externals \<Rightarrow> graph \<Rightarrow> val list \<Rightarrow> node list \<Rightarrow> error + node list" where
  "run_nodes E g is [] = Inr []"
| "run_nodes E g is (n # ns) =
     (case run_node E g is n of
        Inl e \<Rightarrow> Inl e
      | Inr n1 \<Rightarrow>
          (case run_nodes E g is ns of
             Inl e \<Rightarrow> Inl e
           | Inr ns1 \<Rightarrow> Inr (n1 # ns1)))"

definition propagate :: "externals \<Rightarrow> graph \<Rightarrow> val list \<Rightarrow> error + graph" where
  "propagate E g is = run_nodes E g is g"

definition get_placeholders :: "graph \<Rightarrow> node list" where
  "get_placeholders g = filter (\<lambda>x. op x = Placeholder) g"

subsection \<open>The oracle adapter and the strategy wrapper\<close>

text \<open>
  \<open>graph_fails\<close> counts the query, validates the graph and asks the predicate.  The
  counter \<^verbatim>\<open>num_queries\<close> is threaded through every function; a raised exception
  loses it, as it unwinds the frame of \<^verbatim>\<open>minifier\<close>.
\<close>

definition graph_fails :: "externals \<Rightarrow> graph \<Rightarrow> val list \<Rightarrow> nat \<Rightarrow> error + bool \<times> nat" where
  "graph_fails E g is num_queries =
     (if \<not> lint E g then Inl LintError
      else Inr (module_fails E g is, Suc num_queries))"

type_synonym strategy = "graph \<Rightarrow> val list \<Rightarrow> nat \<Rightarrow> (ReproState option \<times> nat) res"

definition register_strategy ::
  "externals \<Rightarrow> strategy \<Rightarrow> ReproState \<Rightarrow> nat \<Rightarrow> (ReproState option \<times> nat) res" where
  "register_strategy E strategy old_state q =
     (case strategy (graph old_state) (inps old_state) q of
        None \<Rightarrow> None
      | Some (Inl e) \<Rightarrow> Some (Inl e)
      | Some (Inr (None, q1)) \<Rightarrow> Some (Inr (None, q1))
      | Some (Inr (Some new_state, q1)) \<Rightarrow>
          (let new_nodes = length (graph new_state);
               old_nodes = length (graph old_state);
               new_inps = length (inps new_state);
               old_inps = length (inps old_state)
           in if new_nodes < old_nodes \<or> (new_nodes = old_nodes \<and> new_inps > old_inps)
              then (case graph_fails E (graph new_state) (inps new_state) q1 of
                      Inl e \<Rightarrow> Some (Inl e)
                    | Inr (b, q2) \<Rightarrow>
                        if \<not> b then Some (Inr (None, q2))
                        else Some (Inr (Some new_state, q2)))
              else Some (Inl (RuntimeError ''Success raised but no progress made?''))))"

subsection \<open>Truncate suffix\<close>

text \<open>
  \<open>floor_log2 n\<close> is \<^verbatim>\<open>math.floor(math.log2(n))\<close> for a positive \<open>n\<close> (the floating
  point logarithm is exact enough for every node count below \<open>2 ^ 48\<close>); on \<open>0\<close> the
  source raises a \<^verbatim>\<open>ValueError\<close>, which the callers model.
\<close>

fun floor_log2 :: "nat \<Rightarrow> nat" where
  "floor_log2 n = (if n < 2 then 0 else Suc (floor_log2 (n div 2)))"

declare floor_log2.simps [simp del]

text \<open>
  The stride \<^verbatim>\<open>max(2**(floor(log2(n)) - 1), 1)\<close>: for \<open>n = 1\<close> the power is
  \<open>1/2\<close>, which the maximum replaces by \<open>1\<close>.
\<close>

definition suffix_gap :: "nat \<Rightarrow> nat" where
  "suffix_gap n = max (2 ^ floor_log2 n div 2) 1"

text \<open>
  The body of the \<^verbatim>\<open>for idx, node in enumerate(cur_graph.nodes)\<close> loop of
  \<^verbatim>\<open>remove_suffix\<close>.  The state is the graph built so far, the keys of \<open>env\<close>, the
  set \<open>tested\<close> and the query counter.
\<close>

fun suffix_scan ::
  "externals \<Rightarrow> graph \<Rightarrow> val list \<Rightarrow> nat \<Rightarrow> (nat \<times> node) list \<Rightarrow> graph \<Rightarrow> nat set
     \<Rightarrow> nat set \<Rightarrow> nat \<Rightarrow> error + ReproState option \<times> nat set \<times> nat" where
  "suffix_scan E cur_graph cur_inps gap [] new_graph env tested q = Inr (None, tested, q)"
| "suffix_scan E cur_graph cur_inps gap ((idx, n) # rest) new_graph env tested q =
     (case node_copy new_graph env n of
        Inl e \<Rightarrow> Inl e
      | Inr new_graph1 \<Rightarrow>
          if op n \<notin> {Placeholder, Output} \<and> idx mod gap = 0 \<and> idx \<notin> tested then
            (let cand = new_graph1 @ [output_node new_graph1 n] in
             case graph_fails E cand cur_inps q of
               Inl e \<Rightarrow> Inl e
             | Inr (b, q1) \<Rightarrow>
                 if b \<and> length cand < length cur_graph
                 then Inr (Some \<lparr>graph = cand, inps = cur_inps\<rparr>, tested, q1)
                 else suffix_scan E cur_graph cur_inps gap rest new_graph1
                        (insert (name n) env) (insert idx tested) q1)
          else suffix_scan E cur_graph cur_inps gap rest new_graph1
                 (insert (name n) env) tested q)"

function suffix_loop ::
  "externals \<Rightarrow> graph \<Rightarrow> val list \<Rightarrow> nat \<Rightarrow> nat set \<Rightarrow> nat
     \<Rightarrow> error + ReproState option \<times> nat" where
  "suffix_loop E cur_graph cur_inps gap tested q =
     (if gap \<ge> 1 then
        (case suffix_scan E cur_graph cur_inps gap (enumerate 0 cur_graph) [] {} tested q of
           Inl e \<Rightarrow> Inl e
         | Inr (Some st, tested1, q1) \<Rightarrow> Inr (Some st, q1)
         | Inr (None, tested1, q1) \<Rightarrow>
             suffix_loop E cur_graph cur_inps (gap div 2) tested1 q1)
      else Inr (None, q))"
  by pat_completeness auto
termination
  by (relation "measure (\<lambda>(E, cur_graph, cur_inps, gap, tested, q). gap)") auto

declare suffix_loop.simps [simp del]

definition remove_suffix ::
  "externals \<Rightarrow> graph \<Rightarrow> val list \<Rightarrow> nat \<Rightarrow> error + ReproState option \<times> nat" where
  "remove_suffix E cur_graph cur_inps q =
     (if length cur_graph = 0 then Inl ValueError
      else suffix_loop E cur_graph cur_inps (suffix_gap (length cur_graph)) {} q)"

subsection \<open>Remove unused inputs\<close>

text \<open>
  The loop over \<^verbatim>\<open>range(len(ph_nodes))\<close>: the placeholders are paired with the
  inputs of the same index (the assertion before the loop makes the two lists equally
  long).  Erasing a node removes it from the node list.
\<close>

fun unused_inputs_loop :: "(node \<times> val) list \<Rightarrow> graph \<Rightarrow> val list \<Rightarrow> graph \<times> val list" where
  "unused_inputs_loop [] cur_graph new_inps = (cur_graph, new_inps)"
| "unused_inputs_loop ((p, v) # rest) cur_graph new_inps =
     (if length (users cur_graph p) = 0
      then unused_inputs_loop rest (remove1 p cur_graph) new_inps
      else unused_inputs_loop rest cur_graph (new_inps @ [v]))"

definition remove_unused_inputs ::
  "externals \<Rightarrow> graph \<Rightarrow> val list \<Rightarrow> nat \<Rightarrow> error + ReproState option \<times> nat" where
  "remove_unused_inputs E cur_graph cur_inps q =
     (let ph_nodes = get_placeholders cur_graph in
      if length ph_nodes \<noteq> length cur_inps then Inl AssertionError
      else
        (case unused_inputs_loop (zip ph_nodes cur_inps) cur_graph [] of
           (cur_graph1, new_inps) \<Rightarrow>
             if length new_inps < length cur_inps then
               (case graph_fails E cur_graph1 new_inps q of
                  Inl e \<Rightarrow> Inl e
                | Inr (b, q1) \<Rightarrow>
                    if b then Inr (Some \<lparr>graph = cur_graph1, inps = new_inps\<rparr>, q1)
                    else Inr (None, q1))
             else Inr (None, q)))"

subsection \<open>Eliminate dead code\<close>

definition eliminate_dead_code ::
  "externals \<Rightarrow> graph \<Rightarrow> val list \<Rightarrow> nat \<Rightarrow> error + ReproState option \<times> nat" where
  "eliminate_dead_code E cur_graph cur_inps q =
     (case eliminate_dead_code_fx E cur_graph of
        (cur_graph1, changed) \<Rightarrow>
          if changed then
            (case graph_fails E cur_graph1 cur_inps q of
               Inl e \<Rightarrow> Inl e
             | Inr (b, q1) \<Rightarrow>
                 if b then Inr (Some \<lparr>graph = cur_graph1, inps = cur_inps\<rparr>, q1)
                 else Inr (None, q1))
          else Inr (None, q))"

subsection \<open>Converting nodes to placeholders\<close>

text \<open>\<^verbatim>\<open>torch.zeros(())\<close>, and the test \<^verbatim>\<open>isinstance(concrete_val, torch.Tensor)\<close>.\<close>

definition zeros :: val where
  "zeros = Tensor 0"

fun is_Tensor :: "val \<Rightarrow> bool" where
  "is_Tensor (Tensor t) = True"
| "is_Tensor v = False"

text \<open>
  A \<^verbatim>\<open>for\<close> loop over a list whose body may raise or fail to return: the loop
  stops at the first element whose body does not return a state.
\<close>

fun fold_res :: "('a \<Rightarrow> 's \<Rightarrow> 's res) \<Rightarrow> 'a list \<Rightarrow> 's \<Rightarrow> 's res" where
  "fold_res f [] s = Some (Inr s)"
| "fold_res f (x # xs) s =
     (case f x s of
        None \<Rightarrow> None
      | Some (Inl e) \<Rightarrow> Some (Inl e)
      | Some (Inr s1) \<Rightarrow> fold_res f xs s1)"

lemma fold_res_mono [partial_function_mono]:
  assumes "\<And>x s. mono_option (\<lambda>f. F f x s)"
  shows "mono_option (\<lambda>f. fold_res (F f) xs s)"
proof (induction xs arbitrary: s)
  case Nil
  show ?case by (simp add: option.const_mono)
next
  case (Cons x xs)
  have eq: "\<And>f. fold_res (F f) (x # xs) s =
      Option.bind (F f x s)
        (\<lambda>r. case r of Inl e \<Rightarrow> Some (Inl e) | Inr s1 \<Rightarrow> fold_res (F f) xs s1)"
    by (simp split: option.splits sum.splits)
  have step: "mono_option (\<lambda>f. case y of Inl e \<Rightarrow> Some (Inl e)
                                 | Inr s1 \<Rightarrow> fold_res (F f) xs s1)" for y
    by (cases y) (simp_all add: option.const_mono Cons)
  show ?case unfolding eq
    by (intro bind_mono assms step)
qed

text \<open>
  \<^verbatim>\<open>_convert_node_to_placeholder(node, inps)\<close> rewrites the node and the input
  list in place.  The node is given by its position in the node list, which the
  conversion never reorders; the state is the graph together with the input list.  The
  consumers are visited in the order of their positions.  The recursion of the source
  is kept as it is.
\<close>

partial_function (option) convert_node_to_placeholder ::
  "nat \<Rightarrow> graph \<times> val list \<Rightarrow> (graph \<times> val list) res" where
  "convert_node_to_placeholder i s =
     (case s of (g, is) \<Rightarrow>
      if op (g ! i) = Output then Some (Inr (g, is))
      else
        (let g1 = g[i := (g ! i)\<lparr>op := Placeholder, args := [], target := name (g ! i)\<rparr>] in
         case concrete_value (g ! i) of
           None \<Rightarrow> Some (Inl KeyError)
         | Some concrete_val \<Rightarrow>
             if is_Tensor concrete_val then Some (Inr (g1, is @ [concrete_val]))
             else fold_res convert_node_to_placeholder (users_idx g1 i) (g1, is @ [zeros])))"

subsection \<open>Delta debugging\<close>

text \<open>
  One loop of \<^verbatim>\<open>_consolidate_placeholders\<close>: the nodes selected by \<open>P\<close> are copied
  in order, each one entering \<open>env\<close> after its copy.
\<close>

fun copy_nodes :: "(node \<Rightarrow> bool) \<Rightarrow> node list \<Rightarrow> graph \<Rightarrow> nat set \<Rightarrow> error + graph \<times> nat set" where
  "copy_nodes P [] new_graph env = Inr (new_graph, env)"
| "copy_nodes P (n # rest) new_graph env =
     (if P n then
        (case node_copy new_graph env n of
           Inl e \<Rightarrow> Inl e
         | Inr new_graph1 \<Rightarrow> copy_nodes P rest new_graph1 (insert (name n) env))
      else copy_nodes P rest new_graph env)"

definition consolidate_placeholders :: "graph \<Rightarrow> error + graph" where
  "consolidate_placeholders cur_graph =
     (case copy_nodes (\<lambda>n. op n = Placeholder) cur_graph [] {} of
        Inl e \<Rightarrow> Inl e
      | Inr (new_graph, env) \<Rightarrow>
          (case copy_nodes (\<lambda>n. op n \<noteq> Placeholder) cur_graph new_graph env of
             Inl e \<Rightarrow> Inl e
           | Inr (new_graph1, env1) \<Rightarrow> Inr new_graph1))"

text \<open>
  The loop \<^verbatim>\<open>for idx in range(start_range, end_range)\<close>; the state is the copied
  graph, the copied input list and the flag \<^verbatim>\<open>is_removing\<close>.
\<close>

fun convert_range :: "nat list \<Rightarrow> graph \<times> val list \<times> bool \<Rightarrow> (graph \<times> val list \<times> bool) res" where
  "convert_range [] s = Some (Inr s)"
| "convert_range (idx # rest) (new_graph, new_inps, is_removing) =
     (if op (new_graph ! idx) \<notin> {Placeholder, Output} then
        (case convert_node_to_placeholder idx (new_graph, new_inps) of
           None \<Rightarrow> None
         | Some (Inl e) \<Rightarrow> Some (Inl e)
         | Some (Inr (new_graph1, new_inps1)) \<Rightarrow>
             convert_range rest (new_graph1, new_inps1, True))
      else convert_range rest (new_graph, new_inps, is_removing))"

text \<open>The loop \<^verbatim>\<open>for start_range in range(0, num_nodes, gap)\<close>.\<close>

fun delta_windows ::
  "externals \<Rightarrow> graph \<Rightarrow> val list \<Rightarrow> nat \<Rightarrow> nat list \<Rightarrow> nat \<Rightarrow> (ReproState option \<times> nat) res" where
  "delta_windows E cur_graph cur_inps gap [] q = Some (Inr (None, q))"
| "delta_windows E cur_graph cur_inps gap (start_range # rest) q =
     (let num_nodes = length cur_graph;
          end_range = min num_nodes (start_range + gap)
      in case convert_range [start_range..<end_range] (cur_graph, cur_inps, False) of
           None \<Rightarrow> None
         | Some (Inl e) \<Rightarrow> Some (Inl e)
         | Some (Inr (new_graph, new_inps, is_removing)) \<Rightarrow>
             if \<not> is_removing then delta_windows E cur_graph cur_inps gap rest q
             else
               (case consolidate_placeholders new_graph of
                  Inl e \<Rightarrow> Some (Inl e)
                | Inr new_graph1 \<Rightarrow>
                    (case graph_fails E new_graph1 new_inps q of
                       Inl e \<Rightarrow> Some (Inl e)
                     | Inr (b, q1) \<Rightarrow>
                         if b then Some (Inr (Some \<lparr>graph = new_graph1, inps = new_inps\<rparr>, q1))
                         else delta_windows E cur_graph cur_inps gap rest q1)))"

text \<open>\<^verbatim>\<open>range(0, num_nodes, gap)\<close> for a positive \<open>gap\<close>.\<close>

definition range_step :: "nat \<Rightarrow> nat \<Rightarrow> nat list" where
  "range_step num_nodes gap = map (\<lambda>k. k * gap) [0..<(num_nodes + gap - 1) div gap]"

function delta_loop ::
  "externals \<Rightarrow> graph \<Rightarrow> val list \<Rightarrow> nat \<Rightarrow> nat \<Rightarrow> (ReproState option \<times> nat) res" where
  "delta_loop E cur_graph cur_inps gap q =
     (if gap \<ge> 1 then
        (case delta_windows E cur_graph cur_inps gap (range_step (length cur_graph) gap) q of
           None \<Rightarrow> None
         | Some (Inl e) \<Rightarrow> Some (Inl e)
         | Some (Inr (Some st, q1)) \<Rightarrow> Some (Inr (Some st, q1))
         | Some (Inr (None, q1)) \<Rightarrow> delta_loop E cur_graph cur_inps (gap div 2) q1)
      else Some (Inr (None, q)))"
  by pat_completeness auto
termination
  by (relation "measure (\<lambda>(E, cur_graph, cur_inps, gap, q). gap)") auto

declare delta_loop.simps [simp del]

definition delta_debugging ::
  "externals \<Rightarrow> graph \<Rightarrow> val list \<Rightarrow> nat \<Rightarrow> (ReproState option \<times> nat) res" where
  "delta_debugging E cur_graph cur_inps q =
     (let num_nodes = length cur_graph in
      if num_nodes = 0 then Some (Inl ValueError)
      else delta_loop E cur_graph cur_inps (2 ^ floor_log2 num_nodes) q)"

subsection \<open>The driver\<close>

text \<open>The list \<^verbatim>\<open>strategies\<close>, each strategy under its wrapper.\<close>

definition strategies :: "externals \<Rightarrow> (ReproState \<Rightarrow> nat \<Rightarrow> (ReproState option \<times> nat) res) list" where
  "strategies E =
     [register_strategy E (\<lambda>g is q. Some (remove_suffix E g is q)),
      register_strategy E (\<lambda>g is q. Some (eliminate_dead_code E g is q)),
      register_strategy E (\<lambda>g is q. Some (remove_unused_inputs E g is q)),
      register_strategy E (delta_debugging E),
      register_strategy E (\<lambda>g is q. Some (eliminate_dead_code E g is q)),
      register_strategy E (\<lambda>g is q. Some (remove_unused_inputs E g is q))]"

text \<open>
  The loop \<^verbatim>\<open>for strategy in strategies\<close>; the state is \<^verbatim>\<open>failing_state\<close>, the
  flag \<^verbatim>\<open>any_succeeded\<close> and the query counter.
\<close>

fun run_strategies ::
  "(ReproState \<Rightarrow> nat \<Rightarrow> (ReproState option \<times> nat) res) list \<Rightarrow> ReproState \<Rightarrow> bool \<Rightarrow> nat
     \<Rightarrow> (ReproState \<times> bool \<times> nat) res" where
  "run_strategies [] failing_state any_succeeded q = Some (Inr (failing_state, any_succeeded, q))"
| "run_strategies (strategy # rest) failing_state any_succeeded q =
     (case strategy failing_state q of
        None \<Rightarrow> None
      | Some (Inl e) \<Rightarrow> Some (Inl e)
      | Some (Inr (None, q1)) \<Rightarrow> run_strategies rest failing_state any_succeeded q1
      | Some (Inr (Some new_state, q1)) \<Rightarrow> run_strategies rest new_state True q1)"

text \<open>The loop \<^verbatim>\<open>while True\<close>, which has no bound on its iterations.\<close>

partial_function (option) minifier_loop ::
  "externals \<Rightarrow> ReproState \<Rightarrow> nat \<Rightarrow> (error + ReproState \<times> nat) option" where
  "minifier_loop E failing_state q =
     (case run_strategies (strategies E) failing_state False q of
        None \<Rightarrow> None
      | Some (Inl e) \<Rightarrow> Some (Inl e)
      | Some (Inr (failing_state1, any_succeeded, q1)) \<Rightarrow>
          if \<not> any_succeeded then Some (Inr (failing_state1, q1))
          else minifier_loop E failing_state1 q1)"

text \<open>
  \<^verbatim>\<open>minifier(fail_f, inps, module_fails)\<close>.  The graph module \<^verbatim>\<open>fail_f\<close> is given
  by its graph, and so is the returned graph module; the result is the returned pair
  together with the number of queries that is printed.  Line 94 runs the graph on the
  inputs before the first query, and an exception of this run ends the minifier.
  Printing and \<^verbatim>\<open>generate_repro\<close> have no effect on the result.
\<close>

definition minifier :: "externals \<Rightarrow> graph \<Rightarrow> val list \<Rightarrow> ((graph \<times> val list) \<times> nat) res" where
  "minifier E fail_f is =
     (case propagate E fail_f is of
        Inl e \<Rightarrow> Some (Inl e)
      | Inr failing_graph \<Rightarrow>
          (case graph_fails E failing_graph is 0 of
             Inl e \<Rightarrow> Some (Inl e)
           | Inr (b, q) \<Rightarrow>
               if \<not> b then Some (Inl (RuntimeError ''Input graph did not fail the tester''))
               else
                 (case minifier_loop E \<lparr>graph = failing_graph, inps = is\<rparr> q of
                    None \<Rightarrow> None
                  | Some (Inl e) \<Rightarrow> Some (Inl e)
                  | Some (Inr (failing_state, q1)) \<Rightarrow>
                      Some (Inr ((graph failing_state, is), q1)))))"

declare convert_node_to_placeholder.simps [code]
declare minifier_loop.simps [code]

section \<open>The strategies on a store of objects\<close>

text \<open>
  Graphs and input lists are mutable objects: \<^verbatim>\<open>eliminate_dead_code\<close>,
  \<^verbatim>\<open>erase_node\<close> and \<^verbatim>\<open>_convert_node_to_placeholder\<close> update them in place, and a
  \<^verbatim>\<open>ReproState\<close> holds references to them.  To speak about what an invocation of a
  strategy changes, the wrapper and the four strategies are written out once more over
  a store that maps addresses to the contents of graph objects and of list objects.
  An object is allocated where the source creates one (\<^verbatim>\<open>copy.deepcopy\<close>,
  \<^verbatim>\<open>list(...)\<close>, \<^verbatim>\<open>cur_inps[:]\<close>, \<^verbatim>\<open>fx.Graph()\<close>, \<^verbatim>\<open>new_inps = []\<close>) and is
  updated at its address where the source mutates it; a loop that updates one object
  step by step is written as one update with the contents the loop ends with.  The
  nodes of different graphs are never shared (\<^verbatim>\<open>deepcopy\<close> and \<^verbatim>\<open>node_copy\<close> create
  new nodes), so that a graph object is represented by its node list.
\<close>

record store =
  graph_objs :: "graph list"
  list_objs :: "val list list"

record StateRef =
  graph_ref :: nat
  inps_ref :: nat

type_synonym store_strategy =
  "nat \<Rightarrow> nat \<Rightarrow> store \<Rightarrow> nat \<Rightarrow> (StateRef option \<times> store \<times> nat) res"

definition new_graph_obj :: "graph \<Rightarrow> store \<Rightarrow> nat \<times> store" where
  "new_graph_obj g s = (length (graph_objs s), s\<lparr>graph_objs := graph_objs s @ [g]\<rparr>)"

definition new_list_obj :: "val list \<Rightarrow> store \<Rightarrow> nat \<times> store" where
  "new_list_obj vs s = (length (list_objs s), s\<lparr>list_objs := list_objs s @ [vs]\<rparr>)"

definition set_graph_obj :: "nat \<Rightarrow> graph \<Rightarrow> store \<Rightarrow> store" where
  "set_graph_obj a g s = s\<lparr>graph_objs := (graph_objs s)[a := g]\<rparr>"

definition deref :: "store \<Rightarrow> StateRef \<Rightarrow> ReproState" where
  "deref s r = \<lparr>graph = graph_objs s ! graph_ref r, inps = list_objs s ! inps_ref r\<rparr>"

definition set_list_obj :: "nat \<Rightarrow> val list \<Rightarrow> store \<Rightarrow> store" where
  "set_list_obj a vs s = s\<lparr>list_objs := (list_objs s)[a := vs]\<rparr>"

text \<open>
  \<^verbatim>\<open>remove_suffix\<close>: every round of the \<^verbatim>\<open>while\<close> loop creates the graph
  \<^verbatim>\<open>new_graph\<close>, which the scan fills; it is returned with the list \<^verbatim>\<open>cur_inps\<close>
  that the strategy was given.
\<close>

function suffix_loop_store ::
  "externals \<Rightarrow> nat \<Rightarrow> nat \<Rightarrow> nat \<Rightarrow> nat set \<Rightarrow> store \<Rightarrow> nat
     \<Rightarrow> (StateRef option \<times> store \<times> nat) res" where
  "suffix_loop_store E cur_graph cur_inps gap tested s q =
     (if gap \<ge> 1 then
        (case new_graph_obj [] s of
           (new_graph, s1) \<Rightarrow>
             (case suffix_scan E (graph_objs s1 ! cur_graph) (list_objs s1 ! cur_inps) gap
                     (enumerate 0 (graph_objs s1 ! cur_graph)) [] {} tested q of
                Inl e \<Rightarrow> Some (Inl e)
              | Inr (Some st, tested1, q1) \<Rightarrow>
                  Some (Inr (Some \<lparr>graph_ref = new_graph, inps_ref = cur_inps\<rparr>,
                             set_graph_obj new_graph (graph st) s1, q1))
              | Inr (None, tested1, q1) \<Rightarrow>
                  suffix_loop_store E cur_graph cur_inps (gap div 2) tested1
                    (set_graph_obj new_graph (graph_objs s1 ! cur_graph) s1) q1))
      else Some (Inr (None, s, q)))"
  by pat_completeness auto
termination
  by (relation "measure (\<lambda>(E, cur_graph, cur_inps, gap, tested, s, q). gap)") auto

declare suffix_loop_store.simps [simp del]

definition remove_suffix_store :: "externals \<Rightarrow> store_strategy" where
  "remove_suffix_store E cur_graph cur_inps s q =
     (if length (graph_objs s ! cur_graph) = 0 then Some (Inl ValueError)
      else suffix_loop_store E cur_graph cur_inps
             (suffix_gap (length (graph_objs s ! cur_graph))) {} s q)"

text \<open>
  \<^verbatim>\<open>remove_unused_inputs\<close> erases nodes of \<^verbatim>\<open>cur_graph\<close> in place and collects the
  remaining inputs in the new list \<^verbatim>\<open>new_inps\<close>.
\<close>

definition remove_unused_inputs_store :: "externals \<Rightarrow> store_strategy" where
  "remove_unused_inputs_store E cur_graph cur_inps s q =
     (let ph_nodes = get_placeholders (graph_objs s ! cur_graph) in
      if length ph_nodes \<noteq> length (list_objs s ! cur_inps) then Some (Inl AssertionError)
      else
        (case unused_inputs_loop (zip ph_nodes (list_objs s ! cur_inps))
                (graph_objs s ! cur_graph) [] of
           (cur_graph1, new_inps_val) \<Rightarrow>
             (case new_list_obj new_inps_val (set_graph_obj cur_graph cur_graph1 s) of
                (new_inps, s1) \<Rightarrow>
                  if length new_inps_val < length (list_objs s ! cur_inps) then
                    (case graph_fails E cur_graph1 new_inps_val q of
                       Inl e \<Rightarrow> Some (Inl e)
                     | Inr (b, q1) \<Rightarrow>
                         if b then Some (Inr (Some \<lparr>graph_ref = cur_graph, inps_ref = new_inps\<rparr>,
                                               s1, q1))
                         else Some (Inr (None, s1, q1)))
                  else Some (Inr (None, s1, q)))))"

text \<open>\<^verbatim>\<open>eliminate_dead_code\<close> rewrites \<^verbatim>\<open>cur_graph\<close> in place.\<close>

definition eliminate_dead_code_store :: "externals \<Rightarrow> store_strategy" where
  "eliminate_dead_code_store E cur_graph cur_inps s q =
     (case eliminate_dead_code_fx E (graph_objs s ! cur_graph) of
        (cur_graph1, changed) \<Rightarrow>
          (let s1 = set_graph_obj cur_graph cur_graph1 s in
           if changed then
             (case graph_fails E cur_graph1 (list_objs s ! cur_inps) q of
                Inl e \<Rightarrow> Some (Inl e)
              | Inr (b, q1) \<Rightarrow>
                  if b then Some (Inr (Some \<lparr>graph_ref = cur_graph, inps_ref = cur_inps\<rparr>,
                                        s1, q1))
                  else Some (Inr (None, s1, q1)))
           else Some (Inr (None, s1, q))))"

text \<open>
  \<^verbatim>\<open>delta_debugging\<close>: every window works on a deep copy of \<^verbatim>\<open>cur_graph\<close> and on
  a copy of \<^verbatim>\<open>cur_inps\<close>, which the conversions update in place;
  \<^verbatim>\<open>_consolidate_placeholders\<close> builds a further graph.
\<close>

fun delta_windows_store ::
  "externals \<Rightarrow> nat \<Rightarrow> nat \<Rightarrow> nat \<Rightarrow> nat list \<Rightarrow> store \<Rightarrow> nat
     \<Rightarrow> (StateRef option \<times> store \<times> nat) res" where
  "delta_windows_store E cur_graph cur_inps gap [] s q = Some (Inr (None, s, q))"
| "delta_windows_store E cur_graph cur_inps gap (start_range # rest) s q =
     (case new_graph_obj (graph_objs s ! cur_graph) s of
        (new_graph, s1) \<Rightarrow>
          (case new_list_obj (list_objs s1 ! cur_inps) s1 of
             (new_inps, s2) \<Rightarrow>
               (let num_nodes = length (graph_objs s2 ! cur_graph);
                    end_range = min num_nodes (start_range + gap)
                in case convert_range [start_range..<end_range]
                          (graph_objs s2 ! new_graph, list_objs s2 ! new_inps, False) of
                     None \<Rightarrow> None
                   | Some (Inl e) \<Rightarrow> Some (Inl e)
                   | Some (Inr (g1, is1, is_removing)) \<Rightarrow>
                       (let s3 = set_list_obj new_inps is1 (set_graph_obj new_graph g1 s2) in
                        if \<not> is_removing
                        then delta_windows_store E cur_graph cur_inps gap rest s3 q
                        else
                          (case consolidate_placeholders g1 of
                             Inl e \<Rightarrow> Some (Inl e)
                           | Inr g2 \<Rightarrow>
                               (case new_graph_obj g2 s3 of
                                  (new_graph1, s4) \<Rightarrow>
                                    (case graph_fails E g2 is1 q of
                                       Inl e \<Rightarrow> Some (Inl e)
                                     | Inr (b, q1) \<Rightarrow>
                                         if b then
                                           Some (Inr (Some \<lparr>graph_ref = new_graph1,
                                                             inps_ref = new_inps\<rparr>, s4, q1))
                                         else delta_windows_store E cur_graph cur_inps gap
                                                rest s4 q1)))))))"

function delta_loop_store ::
  "externals \<Rightarrow> nat \<Rightarrow> nat \<Rightarrow> nat \<Rightarrow> store \<Rightarrow> nat
     \<Rightarrow> (StateRef option \<times> store \<times> nat) res" where
  "delta_loop_store E cur_graph cur_inps gap s q =
     (if gap \<ge> 1 then
        (case delta_windows_store E cur_graph cur_inps gap
                (range_step (length (graph_objs s ! cur_graph)) gap) s q of
           None \<Rightarrow> None
         | Some (Inl e) \<Rightarrow> Some (Inl e)
         | Some (Inr (Some st, s1, q1)) \<Rightarrow> Some (Inr (Some st, s1, q1))
         | Some (Inr (None, s1, q1)) \<Rightarrow> delta_loop_store E cur_graph cur_inps (gap div 2) s1 q1)
      else Some (Inr (None, s, q)))"
  by pat_completeness auto
termination
  by (relation "measure (\<lambda>(E, cur_graph, cur_inps, gap, s, q). gap)") auto

declare delta_loop_store.simps [simp del]

definition delta_debugging_store :: "externals \<Rightarrow> store_strategy" where
  "delta_debugging_store E cur_graph cur_inps s q =
     (let num_nodes = length (graph_objs s ! cur_graph) in
      if num_nodes = 0 then Some (Inl ValueError)
      else delta_loop_store E cur_graph cur_inps (2 ^ floor_log2 num_nodes) s q)"

text \<open>
  The wrapper \<^verbatim>\<open>new_func\<close>: the strategy is given a deep copy of the graph of the
  state and a copy of its input list.
\<close>

definition register_strategy_store ::
  "externals \<Rightarrow> store_strategy \<Rightarrow> StateRef \<Rightarrow> store \<Rightarrow> nat
     \<Rightarrow> (StateRef option \<times> store \<times> nat) res" where
  "register_strategy_store E strategy old_state s q =
     (case new_graph_obj (graph_objs s ! graph_ref old_state) s of
        (graph_copy, s1) \<Rightarrow>
          (case new_list_obj (list_objs s1 ! inps_ref old_state) s1 of
             (inps_copy, s2) \<Rightarrow>
               (case strategy graph_copy inps_copy s2 q of
                  None \<Rightarrow> None
                | Some (Inl e) \<Rightarrow> Some (Inl e)
                | Some (Inr (None, s3, q1)) \<Rightarrow> Some (Inr (None, s3, q1))
                | Some (Inr (Some new_state, s3, q1)) \<Rightarrow>
                    (let new_nodes = length (graph_objs s3 ! graph_ref new_state);
                         old_nodes = length (graph_objs s3 ! graph_ref old_state);
                         new_inps = length (list_objs s3 ! inps_ref new_state);
                         old_inps = length (list_objs s3 ! inps_ref old_state)
                     in if new_nodes < old_nodes \<or> (new_nodes = old_nodes \<and> new_inps > old_inps)
                        then (case graph_fails E (graph_objs s3 ! graph_ref new_state)
                                     (list_objs s3 ! inps_ref new_state) q1 of
                                Inl e \<Rightarrow> Some (Inl e)
                              | Inr (b, q2) \<Rightarrow>
                                  if \<not> b then Some (Inr (None, s3, q2))
                                  else Some (Inr (Some new_state, s3, q2)))
                        else Some (Inl (RuntimeError ''Success raised but no progress made?''))))))"

definition store_strategies :: "externals \<Rightarrow> store_strategy list" where
  "store_strategies E =
     [remove_suffix_store E, eliminate_dead_code_store E, remove_unused_inputs_store E,
      delta_debugging_store E]"

section \<open>Notions used to state the properties\<close>

text \<open>
  The test of the wrapper for an improvement: fewer nodes, or as many nodes and more
  inputs.
\<close>

definition progress :: "ReproState \<Rightarrow> ReproState \<Rightarrow> bool" where
  "progress new_state old_state =
     (length (graph new_state) < length (graph old_state) \<or>
      (length (graph new_state) = length (graph old_state) \<and>
       length (inps new_state) > length (inps old_state)))"

text \<open>
  Truncating a suffix, in the words of its description: a cut point is a node that is
  neither a placeholder nor an output; the truncation at a cut point keeps the nodes up
  to it and makes it the only output.  The strides are halved down to \<open>1\<close>; at each
  stride the cut points whose position is a multiple of the stride are walked in
  order, and points already tried are skipped (\<open>cut_order\<close>).  \<open>try_cuts\<close> queries the
  truncations in this order and accepts the first one that still fails and is smaller.
  \<open>operands_precede\<close> holds of a graph in which every operand refers to an earlier
  node.
\<close>

definition is_cut :: "graph \<Rightarrow> nat \<Rightarrow> bool" where
  "is_cut g idx = (op (g ! idx) \<notin> {Placeholder, Output})"

definition truncation :: "graph \<Rightarrow> nat \<Rightarrow> graph" where
  "truncation g idx = take (Suc idx) g @ [output_node (take (Suc idx) g) (g ! idx)]"

function strides :: "nat \<Rightarrow> nat list" where
  "strides gap = (if gap \<ge> 1 then gap # strides (gap div 2) else [])"
  by pat_completeness auto
termination
  by (relation "measure (\<lambda>gap. gap)") auto

declare strides.simps [simp del]

definition cut_points :: "graph \<Rightarrow> nat \<Rightarrow> nat list" where
  "cut_points g gap = filter (\<lambda>idx. is_cut g idx \<and> idx mod gap = 0) [0..<length g]"

fun untried :: "nat set \<Rightarrow> nat list \<Rightarrow> nat list" where
  "untried tried [] = []"
| "untried tried (idx # rest) =
     (if idx \<in> tried then untried tried rest else idx # untried (insert idx tried) rest)"

definition cut_order :: "graph \<Rightarrow> nat list" where
  "cut_order g = untried {} (concat (map (cut_points g) (strides (suffix_gap (length g)))))"

fun try_cuts ::
  "externals \<Rightarrow> graph \<Rightarrow> val list \<Rightarrow> nat list \<Rightarrow> nat \<Rightarrow> error + ReproState option \<times> nat" where
  "try_cuts E g is [] q = Inr (None, q)"
| "try_cuts E g is (idx # rest) q =
     (case graph_fails E (truncation g idx) is q of
        Inl e \<Rightarrow> Inl e
      | Inr (b, q1) \<Rightarrow>
          if b \<and> length (truncation g idx) < length g
          then Inr (Some \<lparr>graph = truncation g idx, inps = is\<rparr>, q1)
          else try_cuts E g is rest q1)"

fun operands_precede :: "nat set \<Rightarrow> graph \<Rightarrow> bool" where
  "operands_precede env [] = True"
| "operands_precede env (n # ns) =
     (set (args n) \<subseteq> env \<and> operands_precede (insert (name n) env) ns)"

text \<open>
  For the store: an invocation \<open>extends\<close> a store when every object that existed
  before has the contents it had; a strategy \<open>keeps_others\<close> when it leaves every
  object but the two it was given as they were.  \<open>contents\<close> reads the result of an
  invocation on the store as a result on values, and \<open>pure_strategies\<close> are the four
  strategies on values, in the order of \<open>store_strategies\<close>.
\<close>

definition keeps_others :: "store_strategy \<Rightarrow> bool" where
  "keeps_others strategy =
     (\<forall>cur_graph cur_inps s q r s1 q1.
        strategy cur_graph cur_inps s q = Some (Inr (r, s1, q1)) \<longrightarrow>
          length (graph_objs s) \<le> length (graph_objs s1) \<and>
          length (list_objs s) \<le> length (list_objs s1) \<and>
          (\<forall>a < length (graph_objs s). a \<noteq> cur_graph \<longrightarrow> graph_objs s1 ! a = graph_objs s ! a) \<and>
          (\<forall>a < length (list_objs s). a \<noteq> cur_inps \<longrightarrow> list_objs s1 ! a = list_objs s ! a))"

definition extends :: "store \<Rightarrow> store \<Rightarrow> bool" where
  "extends s s1 =
     (length (graph_objs s) \<le> length (graph_objs s1) \<and>
      length (list_objs s) \<le> length (list_objs s1) \<and>
      (\<forall>a < length (graph_objs s). graph_objs s1 ! a = graph_objs s ! a) \<and>
      (\<forall>a < length (list_objs s). list_objs s1 ! a = list_objs s ! a))"

definition content :: "StateRef option \<times> store \<times> nat \<Rightarrow> ReproState option \<times> nat" where
  "content x = (case x of (r, s, q) \<Rightarrow> (map_option (deref s) r, q))"

definition contents :: "(StateRef option \<times> store \<times> nat) res \<Rightarrow> (ReproState option \<times> nat) res" where
  "contents x = map_option (map_sum id content) x"

definition pure_strategies :: "externals \<Rightarrow> strategy list" where
  "pure_strategies E =
     [\<lambda>g is q. Some (remove_suffix E g is q), \<lambda>g is q. Some (eliminate_dead_code E g is q),
      \<lambda>g is q. Some (remove_unused_inputs E g is q), delta_debugging E]"

text \<open>
  What a conversion may do to a graph and an input list: the nodes keep their
  positions, a node is left as it is or, when it is not an output, is turned into a
  placeholder without operands, and the input list is extended at its end.
\<close>

definition as_placeholder :: "node \<Rightarrow> node" where
  "as_placeholder n = n\<lparr>op := Placeholder, args := [], target := name n\<rparr>"

definition converted :: "graph \<times> val list \<Rightarrow> graph \<times> val list \<Rightarrow> bool" where
  "converted s s1 =
     (length (fst s1) = length (fst s) \<and>
      (\<forall>j < length (fst s).
         fst s1 ! j = fst s ! j \<or>
         (op (fst s ! j) \<noteq> Output \<and> fst s1 ! j = as_placeholder (fst s ! j))) \<and>
      (\<exists>vs. snd s1 = snd s @ vs))"

section \<open>Concrete collaborators and graphs\<close>

text \<open>
  Instances of the collaborators, on which the functions are run.  Modelled from the
  spec: validation accepts a graph when no identity occurs twice and every operand
  refers to an earlier node (\<open>lint_from\<close>); dead code elimination walks the nodes from
  the last to the first and removes every node that is not the output and has no
  consumer left (\<open>dce_rev\<close>).  Input nodes are kept there: the spec makes
  \<^verbatim>\<open>remove_unused_inputs\<close> responsible for them and for their entries of the input
  list, and requires of it to find the unused input of a graph.  The interpreter
  \<open>example_run_node\<close> gives a placeholder the input of its position among the
  placeholders and raises when there is none; any other node raises when one of its
  operands is not the value of an earlier node; the kind of result of an operation is
  read off its payload (\<open>1\<close> yields a tuple holding a tensor, \<open>2\<close> a value without
  any tensor, everything else a tensor); the output node yields the tuple of the values
  of its operands.  \<open>annotated\<close> is the graph as the run of line 94 leaves it.
\<close>

fun lint_from :: "nat set \<Rightarrow> graph \<Rightarrow> bool" where
  "lint_from seen [] = True"
| "lint_from seen (n # ns) =
     (set (args n) \<subseteq> seen \<and> name n \<notin> seen \<and> lint_from (insert (name n) seen) ns)"

fun dce_rev :: "node list \<Rightarrow> node list \<Rightarrow> bool \<Rightarrow> graph \<times> bool" where
  "dce_rev [] kept changed = (kept, changed)"
| "dce_rev (n # ns) kept changed =
     (if op n = Operation \<and> length (users kept n) = 0
      then dce_rev ns kept True
      else dce_rev ns (n # kept) changed)"

definition operation_result :: "node \<Rightarrow> val" where
  "operation_result n =
     (if target n = 1 then Aggregate [Tensor (name n)]
      else if target n = 2 then Scalar 0
      else Tensor (name n))"

definition earlier :: "graph \<Rightarrow> node \<Rightarrow> node list" where
  "earlier g n = takeWhile (\<lambda>m. name m \<noteq> name n) g"

definition input_index :: "graph \<Rightarrow> node \<Rightarrow> nat" where
  "input_index g n = length (get_placeholders (earlier g n))"

definition operand_value :: "graph \<Rightarrow> val list \<Rightarrow> node \<Rightarrow> val" where
  "operand_value g is m =
     (if op m = Placeholder then is ! input_index g m else operation_result m)"

definition example_run_node :: "graph \<Rightarrow> val list \<Rightarrow> node \<Rightarrow> error + val" where
  "example_run_node g is n =
     (if op n = Placeholder then
        (if input_index g n < length is then Inr (is ! input_index g n)
         else Inl (RuntimeError ''Expected positional argument for parameter''))
      else if \<not> set (args n) \<subseteq> set (map name (earlier g n)) then
        Inl (RuntimeError ''Node referenced nonexistent value'')
      else if op n = Output then
        Inr (Aggregate
               (map (operand_value g is) (filter (\<lambda>m. name m \<in> set (args n)) (earlier g n))))
      else Inr (operation_result n))"

definition example_externals :: "(graph \<Rightarrow> val list \<Rightarrow> bool) \<Rightarrow> externals" where
  "example_externals fails =
     \<lparr>lint = lint_from {},
      module_fails = fails,
      eliminate_dead_code_fx = (\<lambda>g. dce_rev (rev g) [] False),
      run_node_super = example_run_node\<rparr>"

definition annotated :: "(graph \<Rightarrow> val list \<Rightarrow> bool) \<Rightarrow> graph \<Rightarrow> val list \<Rightarrow> graph" where
  "annotated fails g is =
     (case propagate (example_externals fails) g is of Inl e \<Rightarrow> [] | Inr g1 \<Rightarrow> g1)"

definition mk_node :: "nat \<Rightarrow> opkind \<Rightarrow> nat \<Rightarrow> nat list \<Rightarrow> node" where
  "mk_node i k t as = \<lparr>name = i, op = k, target = t, args = as, concrete_value = None\<rparr>"

definition arity_and_node2 :: "graph \<Rightarrow> val list \<Rightarrow> bool" where
  "arity_and_node2 g is =
     (length is = length (get_placeholders g) \<and> (\<exists>n \<in> set g. name n = 2 \<and> op n = Operation))"

definition example_graph :: graph where
  "example_graph =
     [mk_node 0 Placeholder 0 [], mk_node 1 Operation 0 [0], mk_node 2 Operation 0 [0, 1],
      mk_node 3 Output 0 [2]]"

definition example_state :: ReproState where
  "example_state =
     \<lparr>graph = annotated arity_and_node2 example_graph [Tensor 7],
      inps = [Tensor 7]\<rparr>"

definition example_state1 :: ReproState where
  "example_state1 =
     \<lparr>graph = (graph example_state)
         [1 := (graph example_state ! 1)\<lparr>op := Placeholder, args := [], target := 1\<rparr>],
      inps = [Tensor 7, Tensor 1]\<rparr>"

definition identity_strategy :: strategy where
  "identity_strategy g is q = Some (Inr (Some \<lparr>graph = g, inps = is\<rparr>, q))"


definition always_fails :: "graph \<Rightarrow> val list \<Rightarrow> bool" where
  "always_fails g is = True"

definition keeps_node3 :: "graph \<Rightarrow> val list \<Rightarrow> bool" where
  "keeps_node3 g is = (\<exists>n \<in> set g. name n = 3 \<and> op n \<noteq> Output)"

definition size_graph :: graph where
  "size_graph =
     [mk_node 0 Placeholder 0 [], mk_node 1 Operation 2 [0], mk_node 2 Operation 0 [0],
      mk_node 3 Output 0 [2]]"

definition two_node_graph :: graph where
  "two_node_graph = [mk_node 0 Placeholder 0 [], mk_node 1 Output 0 [0]]"

definition redefined_name_graph :: graph where
  "redefined_name_graph =
     [mk_node 0 Placeholder 0 [], mk_node 0 Placeholder 0 [], mk_node 1 Output 0 [0]]"

definition diamond_graph :: graph where
  "diamond_graph =
     [mk_node 0 Placeholder 0 [], mk_node 1 Operation 1 [0], mk_node 2 Operation 1 [1],
      mk_node 3 Operation 0 [1, 2], mk_node 4 Output 0 [3]]"

definition diamond_state :: "graph \<times> val list" where
  "diamond_state = (annotated keeps_node3 diamond_graph [Tensor 7], [Tensor 7])"

definition unchecked_strategy :: strategy where
  "unchecked_strategy g is q = Some (Inr (Some \<lparr>graph = take 2 g, inps = is\<rparr>, q))"

definition example_result :: graph where
  "example_result = graph example_state1"

definition chain_graph :: graph where
  "chain_graph =
     [mk_node 0 Placeholder 0 [], mk_node 1 Operation 0 [0], mk_node 2 Operation 0 [1],
      mk_node 3 Operation 0 [2], mk_node 4 Operation 0 [3], mk_node 5 Operation 0 [4],
      mk_node 6 Output 0 [5]]"

definition needs_node4 :: "graph \<Rightarrow> val list \<Rightarrow> bool" where
  "needs_node4 g is = (\<exists>n \<in> set g. name n = 4 \<and> op n = Operation)"

definition needs_node1 :: "graph \<Rightarrow> val list \<Rightarrow> bool" where
  "needs_node1 g is = (\<exists>n \<in> set g. name n = 1 \<and> op n = Operation)"

definition unused_input_graph :: graph where
  "unused_input_graph =
     [mk_node 0 Placeholder 0 [], mk_node 1 Placeholder 0 [], mk_node 2 Operation 0 [0],
      mk_node 3 Output 0 [2]]"

definition unused_input_result :: graph where
  "unused_input_result =
     [annotated arity_and_node2 unused_input_graph [Tensor 7, Tensor 8] ! 0,
      annotated arity_and_node2 unused_input_graph [Tensor 7, Tensor 8] ! 2,
      annotated arity_and_node2 unused_input_graph [Tensor 7, Tensor 8] ! 3]"

definition size_store :: store where
  "size_store =
     \<lparr>graph_objs = [annotated needs_node1 size_graph [Tensor 7]],
      list_objs = [[Tensor 7]]\<rparr>"

definition size_store1 :: store where
  "size_store1 =
     \<lparr>graph_objs = [annotated needs_node1 size_graph [Tensor 7],
                    [annotated needs_node1 size_graph [Tensor 7] ! 0,
                     annotated needs_node1 size_graph [Tensor 7] ! 2,
                     annotated needs_node1 size_graph [Tensor 7] ! 3]],
      list_objs = [[Tensor 7], [Tensor 7]]\<rparr>"

section \<open>The wrapper and one pass of the driver\<close>

lemma register_strategy_Some:
  assumes "register_strategy E strategy old_state q = Some (Inr (Some new_state, q2))"
  shows "progress new_state old_state \<and> lint E (graph new_state) \<and>
         module_fails E (graph new_state) (inps new_state) \<and>
         (\<exists>q1. strategy (graph old_state) (inps old_state) q = Some (Inr (Some new_state, q1)) \<and> q2 = Suc q1)"
  using assms
  by (auto simp: register_strategy_def progress_def graph_fails_def Let_def
           split: option.splits sum.splits prod.splits if_splits)

lemma register_strategy_no_progress:
  assumes "strategy (graph old_state) (inps old_state) q = Some (Inr (Some cand, q1))"
    and "\<not> progress cand old_state"
  shows "register_strategy E strategy old_state q =
           Some (Inl (RuntimeError ''Success raised but no progress made?''))"
  using assms by (auto simp: register_strategy_def progress_def Let_def)

lemma progress_trans: "progress c b \<Longrightarrow> progress b a \<Longrightarrow> progress c a"
  by (auto simp: progress_def)

lemma run_strategies_progress:
  assumes "\<forall>s \<in> set ss. \<exists>str. s = register_strategy E str"
    and "run_strategies ss st a q = Some (Inr (st1, a1, q1))"
  shows "(st1 = st \<and> a1 = a) \<or> (progress st1 st \<and> a1)"
  using assms
proof (induction ss arbitrary: st a q)
  case Nil
  then show ?case by simp
next
  case (Cons s ss)
  from Cons.prems(1) obtain str where s: "s = register_strategy E str" by auto
  from Cons.prems(1) have rest: "\<forall>s \<in> set ss. \<exists>str. s = register_strategy E str" by simp
  show ?case
  proof (cases "s st q")
    case None
    with Cons.prems(2) show ?thesis by simp
  next
    case (Some r)
    show ?thesis
    proof (cases r)
      case (Inl e)
      with Some Cons.prems(2) show ?thesis by simp
    next
      case (Inr p)
      obtain o' q' where p: "p = (o', q')" by (cases p)
      show ?thesis
      proof (cases o')
        case None
        with Some Inr p Cons.prems(2) have "run_strategies ss st a q' = Some (Inr (st1, a1, q1))"
          by simp
        from Cons.IH [OF rest this] show ?thesis .
      next
        case (Some new_state)
        with \<open>s st q = Some r\<close> Inr p Cons.prems(2)
        have run: "run_strategies ss new_state True q' = Some (Inr (st1, a1, q1))"
          by simp
        from \<open>s st q = Some r\<close> Inr p Some s
        have "register_strategy E str st q = Some (Inr (Some new_state, q'))" by simp
        then have pr: "progress new_state st" using register_strategy_Some by blast
        from Cons.IH [OF rest run] pr show ?thesis
          by (auto intro: progress_trans)
      qed
    qed
  qed
qed

lemma strategies_wrapped: "\<forall>s \<in> set (strategies E). \<exists>str. s = register_strategy E str"
  by (auto simp: strategies_def)


text \<open>
  C4.  A state that the wrapper hands back to the driver has fewer nodes than the state
  it replaces, or as many nodes and more inputs; a candidate of a strategy that meets
  neither condition is never accepted, the wrapper raises instead; and the state held
  after a full pass over the six strategies is the state held before it, with no
  success recorded, or is an improvement of it in that order, which is transitive.
\<close>

theorem accepted_replacement_is_progress:
  "(register_strategy E strategy old_state q = Some (Inr (Some new_state, q2))
      \<longrightarrow> progress new_state old_state) \<and>
   (strategy (graph old_state) (inps old_state) q = Some (Inr (Some cand, q1)) \<and>
      \<not> progress cand old_state
      \<longrightarrow> register_strategy E strategy old_state q =
            Some (Inl (RuntimeError ''Success raised but no progress made?''))) \<and>
   (run_strategies (strategies E) failing_state False q = Some (Inr (failing_state1, any_succeeded, q3))
      \<longrightarrow> (failing_state1 = failing_state \<and> \<not> any_succeeded) \<or>
          (progress failing_state1 failing_state \<and> any_succeeded))"
proof (intro conjI impI)
  assume "register_strategy E strategy old_state q = Some (Inr (Some new_state, q2))"
  then show "progress new_state old_state" using register_strategy_Some by blast
next
  assume "strategy (graph old_state) (inps old_state) q = Some (Inr (Some cand, q1)) \<and>
      \<not> progress cand old_state"
  then show "register_strategy E strategy old_state q =
            Some (Inl (RuntimeError ''Success raised but no progress made?''))"
    using register_strategy_no_progress by blast
next
  assume "run_strategies (strategies E) failing_state False q =
            Some (Inr (failing_state1, any_succeeded, q3))"
  from run_strategies_progress [OF strategies_wrapped this]
  show "(failing_state1 = failing_state \<and> \<not> any_succeeded) \<or>
          (progress failing_state1 failing_state \<and> any_succeeded)"
    by auto
qed

theorem accepted_replacement_is_progress_witness:
  "register_strategy (example_externals arity_and_node2)
      (delta_debugging (example_externals arity_and_node2)) example_state 3 =
        Some (Inr (Some example_state1, 6)) \<and>
   progress example_state1 example_state \<and>
   identity_strategy (graph example_state) (inps example_state) 3 =
     Some (Inr (Some example_state, 3)) \<and>
   \<not> progress example_state example_state \<and>
   register_strategy (example_externals arity_and_node2) identity_strategy example_state 3 =
     Some (Inl (RuntimeError ''Success raised but no progress made?'')) \<and>
   run_strategies (strategies (example_externals arity_and_node2)) example_state False 1 =
     Some (Inr (example_state1, True, 6)) \<and>
   progress example_state1 example_state"
proof -
  let ?E = "example_externals arity_and_node2"
  have a: "register_strategy ?E (delta_debugging ?E) example_state 3 =
             Some (Inr (Some example_state1, 6))"
    by code_simp
  have b: "identity_strategy (graph example_state) (inps example_state) 3 =
             Some (Inr (Some example_state, 3))"
    by (simp add: identity_strategy_def)
  have c: "\<not> progress example_state example_state"
    by (simp add: progress_def)
  have d: "run_strategies (strategies ?E) example_state False 1 =
             Some (Inr (example_state1, True, 6))"
    by code_simp
  note t = accepted_replacement_is_progress
    [of ?E "delta_debugging ?E" example_state 3 example_state1 6]
  note u = accepted_replacement_is_progress
    [of ?E identity_strategy example_state 3 _ _ example_state 3]
  note v = accepted_replacement_is_progress
    [of ?E _ _ 1 _ _ _ _ example_state example_state1 True 6]
  from t a have p1: "progress example_state1 example_state" by blast
  from u b c have p2: "register_strategy ?E identity_strategy example_state 3 =
     Some (Inl (RuntimeError ''Success raised but no progress made?''))" by blast
  from v d have p3: "progress example_state1 example_state" by blast
  from a p1 b c p2 d p3 show ?thesis by blast
qed


text \<open>
  C2 (as amended).  When a strategy returns a candidate that passes the improvement test
  and the graph of the candidate is valid, but the re-verifying query answers that the
  candidate does not reproduce the failure, the wrapper counts the query, drops the
  candidate and returns no progress; the driver goes on to the next strategy with the
  state it held, exactly as after a strategy that found nothing.  No error is raised.
\<close>

theorem failed_reverification_is_no_progress:
  "strategy (graph old_state) (inps old_state) q = Some (Inr (Some cand, q1)) \<and>
   progress cand old_state \<and> lint E (graph cand) \<and>
   \<not> module_fails E (graph cand) (inps cand)
   \<longrightarrow> register_strategy E strategy old_state q = Some (Inr (None, Suc q1)) \<and>
       run_strategies (register_strategy E strategy # rest) old_state any_succeeded q =
         run_strategies rest old_state any_succeeded (Suc q1)"
  by (auto simp: register_strategy_def progress_def graph_fails_def Let_def)

theorem failed_reverification_is_no_progress_witness:
  "unchecked_strategy (graph example_state) (inps example_state) 1 =
     Some (Inr (Some \<lparr>graph = take 2 (graph example_state), inps = [Tensor 7]\<rparr>, 1)) \<and>
   progress \<lparr>graph = take 2 (graph example_state), inps = [Tensor 7]\<rparr> example_state \<and>
   lint (example_externals arity_and_node2) (take 2 (graph example_state)) \<and>
   \<not> module_fails (example_externals arity_and_node2) (take 2 (graph example_state)) [Tensor 7] \<and>
   register_strategy (example_externals arity_and_node2) unchecked_strategy example_state 1 =
     Some (Inr (None, 2)) \<and>
   run_strategies [register_strategy (example_externals arity_and_node2) unchecked_strategy]
     example_state False 1 = run_strategies [] example_state False 2"
proof -
  let ?E = "example_externals arity_and_node2"
  let ?c = "\<lparr>graph = take 2 (graph example_state), inps = [Tensor 7]\<rparr>"
  have h: "unchecked_strategy (graph example_state) (inps example_state) 1 =
             Some (Inr (Some ?c, 1)) \<and>
           progress ?c example_state \<and> lint ?E (graph ?c) \<and>
           \<not> module_fails ?E (graph ?c) (inps ?c)"
    by code_simp
  from failed_reverification_is_no_progress
         [of unchecked_strategy example_state 1 ?c 1 ?E "[]" False] h
  show ?thesis by simp
qed

text \<open>
  C2 as stated fails.  The predicate being a function of the graph and the inputs, the
  re-verification can only disagree with a strategy that claims a success it has not
  checked; \<open>unchecked_strategy\<close> is one, handing back the first two nodes of the
  graph.  Its candidate is smaller, the re-verification answers \<open>False\<close>, and the
  wrapper returns no progress instead of aborting; the pass ends normally with the
  state it started from.
\<close>

theorem failed_reverification_counterexample:
  "unchecked_strategy (graph example_state) (inps example_state) 1 =
     Some (Inr (Some \<lparr>graph = take 2 (graph example_state), inps = [Tensor 7]\<rparr>, 1)) \<and>
   progress \<lparr>graph = take 2 (graph example_state), inps = [Tensor 7]\<rparr> example_state \<and>
   graph_fails (example_externals arity_and_node2) (take 2 (graph example_state)) [Tensor 7] 1 =
     Inr (False, 2) \<and>
   register_strategy (example_externals arity_and_node2) unchecked_strategy example_state 1 =
     Some (Inr (None, 2)) \<and>
   run_strategies [register_strategy (example_externals arity_and_node2) unchecked_strategy]
     example_state False 1 = Some (Inr (example_state, False, 2))"
  by code_simp

section \<open>Truncate suffix\<close>

text \<open>The scan of one stride, as a walk over the cut points of that stride.\<close>

fun scan_cuts ::
  "externals \<Rightarrow> graph \<Rightarrow> val list \<Rightarrow> nat list \<Rightarrow> nat set \<Rightarrow> nat
     \<Rightarrow> error + ReproState option \<times> nat set \<times> nat" where
  "scan_cuts E g is [] tested q = Inr (None, tested, q)"
| "scan_cuts E g is (idx # rest) tested q =
     (if idx \<in> tested then scan_cuts E g is rest tested q
      else
        (case graph_fails E (truncation g idx) is q of
           Inl e \<Rightarrow> Inl e
         | Inr (b, q1) \<Rightarrow>
             if b \<and> length (truncation g idx) < length g
             then Inr (Some \<lparr>graph = truncation g idx, inps = is\<rparr>, tested, q1)
             else scan_cuts E g is rest (insert idx tested) q1))"

lemma suffix_scan_scan_cuts:
  assumes "g = pre @ xs" and "operands_precede (name ` set pre) xs"
  shows "suffix_scan E g is gap (enumerate (length pre) xs) pre (name ` set pre) tested q =
         scan_cuts E g is
           (filter (\<lambda>idx. is_cut g idx \<and> idx mod gap = 0) [length pre..<length g]) tested q"
  using assms
proof (induction xs arbitrary: pre tested q)
  case Nil
  then show ?case by simp
next
  case (Cons x xs)
  let ?k = "length pre"
  let ?pre = "pre @ [x]"
  from Cons.prems have g: "g = ?pre @ xs" by simp
  from Cons.prems have args: "set (args x) \<subseteq> name ` set pre" by simp
  from Cons.prems have pc: "operands_precede (name ` set ?pre) xs" by simp
  have env: "insert (name x) (name ` set pre) = name ` set ?pre" by auto
  have len: "Suc ?k = length ?pre" by simp
  note IH = Cons.IH [OF g pc, folded env, unfolded length_append_singleton]
  from Cons.prems have k: "?k < length g" by simp
  from Cons.prems have gk: "g ! ?k = x" by simp
  from Cons.prems have tk: "take (Suc ?k) g = ?pre" by simp
  have up: "[?k..<length g] = ?k # [Suc ?k..<length g]"
    using k by (simp add: upt_conv_Cons)
  have nc: "node_copy pre (name ` set pre) x = Inr ?pre"
    using args by (simp add: node_copy_def)
  have tr: "?pre @ [output_node ?pre x] = truncation g ?k"
    by (simp add: truncation_def tk gk)
  have cut: "is_cut g ?k = (op x \<notin> {Placeholder, Output})"
    by (simp add: is_cut_def gk)
  have lhs: "suffix_scan E g is gap (enumerate ?k (x # xs)) pre (name ` set pre) tested q =
     (if op x \<notin> {Placeholder, Output} \<and> ?k mod gap = 0 \<and> ?k \<notin> tested then
        (case graph_fails E (truncation g ?k) is q of
           Inl e \<Rightarrow> Inl e
         | Inr (b, q1) \<Rightarrow>
             if b \<and> length (truncation g ?k) < length g
             then Inr (Some \<lparr>graph = truncation g ?k, inps = is\<rparr>, tested, q1)
             else suffix_scan E g is gap (enumerate (Suc ?k) xs) ?pre
                    (insert (name x) (name ` set pre)) (insert ?k tested) q1)
      else suffix_scan E g is gap (enumerate (Suc ?k) xs) ?pre
             (insert (name x) (name ` set pre)) tested q)"
    by (simp only: enumerate_simps suffix_scan.simps nc sum.case Let_def tr)
  have rhs: "filter (\<lambda>idx. is_cut g idx \<and> idx mod gap = 0) [?k..<length g] =
     (if op x \<notin> {Placeholder, Output} \<and> ?k mod gap = 0
      then ?k # filter (\<lambda>idx. is_cut g idx \<and> idx mod gap = 0) [Suc ?k..<length g]
      else filter (\<lambda>idx. is_cut g idx \<and> idx mod gap = 0) [Suc ?k..<length g])"
    by (simp only: up filter.simps cut)
  show ?case
  proof (cases "op x \<notin> {Placeholder, Output} \<and> ?k mod gap = 0")
    case False
    then show ?thesis
      unfolding lhs rhs IH by auto
  next
    case True
    show ?thesis
    proof (cases "?k \<in> tested")
      case kt: True
      with True show ?thesis
        unfolding lhs rhs IH by simp
    next
      case kt: False
      with True show ?thesis
        unfolding lhs rhs IH by simp
    qed
  qed
qed


lemma scan_cuts_untried:
  "(case scan_cuts E g is xs tested q of
      Inl e \<Rightarrow> Inl e
    | Inr (Some st, tested1, q1) \<Rightarrow> Inr (Some st, q1)
    | Inr (None, tested1, q1) \<Rightarrow> try_cuts E g is (untried tested1 ys) q1) =
   try_cuts E g is (untried tested (xs @ ys)) q"
proof (induction xs arbitrary: tested q)
  case Nil
  show ?case by simp
next
  case (Cons idx xs)
  show ?case
  proof (cases "idx \<in> tested")
    case True
    then show ?thesis using Cons.IH by simp
  next
    case False
    show ?thesis
    proof (cases "graph_fails E (truncation g idx) is q")
      case (Inl e)
      with False show ?thesis by simp
    next
      case (Inr p)
      obtain b q1 where p: "p = (b, q1)" by (cases p)
      show ?thesis
      proof (cases "b \<and> length (truncation g idx) < length g")
        case True
        with False Inr p show ?thesis by simp
      next
        case no: False
        have "scan_cuts E g is (idx # xs) tested q = scan_cuts E g is xs (insert idx tested) q1"
          using False Inr p no by auto
        moreover have "try_cuts E g is (untried tested ((idx # xs) @ ys)) q =
                       try_cuts E g is (untried (insert idx tested) (xs @ ys)) q1"
          using False Inr p no by auto
        ultimately show ?thesis using Cons.IH [of "insert idx tested" q1] by simp
      qed
    qed
  qed
qed

lemma suffix_loop_try_cuts:
  assumes "operands_precede {} g"
  shows "suffix_loop E g is gap tested q =
         try_cuts E g is (untried tested (concat (map (cut_points g) (strides gap)))) q"
proof (induction gap arbitrary: tested q rule: less_induct)
  case (less gap)
  show ?case
  proof (cases "gap \<ge> 1")
    case False
    then show ?thesis
      by (subst suffix_loop.simps, subst strides.simps) simp
  next
    case True
    have scan: "suffix_scan E g is gap (enumerate 0 g) [] {} tested q =
                scan_cuts E g is (cut_points g gap) tested q"
      using suffix_scan_scan_cuts [of g "[]" g E "is" gap tested q] assms
      by (simp add: cut_points_def)
    have st: "strides gap = gap # strides (gap div 2)"
      using True by (subst strides.simps) simp
    have lt: "gap div 2 < gap" using True by simp
    note IH = less.IH [OF lt]
    have "suffix_loop E g is gap tested q =
          (case scan_cuts E g is (cut_points g gap) tested q of
             Inl e \<Rightarrow> Inl e
           | Inr (Some st, tested1, q1) \<Rightarrow> Inr (Some st, q1)
           | Inr (None, tested1, q1) \<Rightarrow>
               try_cuts E g is
                 (untried tested1 (concat (map (cut_points g) (strides (gap div 2))))) q1)"
      using True
      by (subst suffix_loop.simps)
         (simp add: scan IH split: sum.splits option.splits prod.splits)
    also have "\<dots> = try_cuts E g is
                 (untried tested (cut_points g gap @
                    concat (map (cut_points g) (strides (gap div 2))))) q"
      by (rule scan_cuts_untried)
    finally show ?thesis by (simp add: st)
  qed
qed

lemma floor_log2_bounds:
  "0 < n \<Longrightarrow> 2 ^ floor_log2 n \<le> n \<and> n < 2 * 2 ^ floor_log2 n"
proof (induction n rule: floor_log2.induct)
  case (1 n)
  show ?case
  proof (cases "n < 2")
    case True
    with 1(2) have "n = 1" by simp
    then show ?thesis by (simp add: floor_log2.simps)
  next
    case False
    then have pos: "0 < n div 2" by simp
    from 1(1) [OF False pos]
    have ih: "2 ^ floor_log2 (n div 2) \<le> n div 2 \<and> n div 2 < 2 * 2 ^ floor_log2 (n div 2)" .
    have fl: "floor_log2 n = Suc (floor_log2 (n div 2))"
      using False by (subst floor_log2.simps) simp
    define m where "m = (2::nat) ^ floor_log2 (n div 2)"
    from ih have "m \<le> n div 2 \<and> n div 2 < 2 * m" by (simp add: m_def)
    then have "2 * m \<le> n \<and> n < 2 * (2 * m)" by arith
    then show ?thesis unfolding fl by (simp add: m_def)
  qed
qed


lemma suffix_gap_pow2: "suffix_gap n = 2 ^ (floor_log2 n - 1)"
proof (cases "floor_log2 n")
  case 0
  then show ?thesis by (simp add: suffix_gap_def)
next
  case (Suc k)
  then show ?thesis by (simp add: suffix_gap_def)
qed

lemma strides_pow2: "strides (2 ^ j) = map (\<lambda>i. 2 ^ i) (rev [0..<Suc j])"
proof (induction j)
  case 0
  have "strides (Suc 0) = [Suc 0]"
    by (subst strides.simps, subst strides.simps) simp
  then show ?case by simp
next
  case (Suc j)
  have "strides (2 ^ Suc j) = 2 ^ Suc j # strides (2 ^ j)"
    by (subst strides.simps) simp
  with Suc show ?case by simp
qed

lemma untried_set: "set (untried tried xs) = set xs - tried"
  by (induction xs arbitrary: tried) auto

lemma untried_distinct: "distinct (untried tried xs)"
  by (induction xs arbitrary: tried) (auto simp: untried_set)

lemma cut_points_1: "set (cut_points g 1) = {idx. idx < length g \<and> is_cut g idx}"
  by (auto simp: cut_points_def)

lemma cut_points_subset: "set (cut_points g gap) \<subseteq> {idx. idx < length g \<and> is_cut g idx}"
  by (auto simp: cut_points_def)

lemma cut_order_set: "set (cut_order g) = {idx. idx < length g \<and> is_cut g idx}"
proof -
  let ?k = "floor_log2 (length g) - 1"
  have st: "strides (suffix_gap (length g)) = map (\<lambda>i. 2 ^ i) (rev [0..<Suc ?k])"
    by (simp only: suffix_gap_pow2 strides_pow2)
  have one: "(1::nat) \<in> set (strides (suffix_gap (length g)))"
  proof -
    have "(2::nat) ^ 0 \<in> (\<lambda>i. 2 ^ i) ` set (rev [0..<Suc ?k])"
      by (rule imageI) auto
    then show ?thesis unfolding st by simp
  qed
  have "set (cut_order g) = (\<Union>gap \<in> set (strides (suffix_gap (length g))). set (cut_points g gap))"
    by (simp add: cut_order_def untried_set)
  also have "\<dots> = {idx. idx < length g \<and> is_cut g idx}"
  proof
    show "(\<Union>gap \<in> set (strides (suffix_gap (length g))). set (cut_points g gap))
            \<subseteq> {idx. idx < length g \<and> is_cut g idx}"
      using cut_points_subset by blast
    show "{idx. idx < length g \<and> is_cut g idx}
            \<subseteq> (\<Union>gap \<in> set (strides (suffix_gap (length g))). set (cut_points g gap))"
      using one cut_points_1 [of g] by blast
  qed
  finally show ?thesis .
qed

text \<open>
  C6 (as amended).  For a graph of \<open>n\<close> nodes the initial stride is
  \<open>2 ^ (floor_log2 n - 1)\<close>, which is \<open>1\<close> for \<open>n < 4\<close> and otherwise half the largest
  power of two that does not exceed \<open>n\<close>; the strides are this power of two and all
  smaller ones down to \<open>1\<close>.  Every cut point is tried, and none twice.  On a graph that
  is not empty and whose operands refer to earlier nodes, the strategy queries the
  truncations in the order of \<open>cut_order\<close> and returns the first one that still fails
  and has fewer nodes than the graph; it returns no progress when there is none.
\<close>

theorem remove_suffix_tries_cuts_in_order:
  "(0 < n \<longrightarrow> 2 ^ floor_log2 n \<le> n \<and> n < 2 * 2 ^ floor_log2 n) \<and>
   suffix_gap n = 2 ^ (floor_log2 n - 1) \<and>
   strides (suffix_gap n) = map (\<lambda>j. 2 ^ j) (rev [0..<Suc (floor_log2 n - 1)]) \<and>
   distinct (cut_order g) \<and>
   set (cut_order g) = {idx. idx < length g \<and> is_cut g idx} \<and>
   (g \<noteq> [] \<and> operands_precede {} g
      \<longrightarrow> remove_suffix E g is q = try_cuts E g is (cut_order g) q)"
proof (intro conjI impI)
  assume "0 < n"
  then show "2 ^ floor_log2 n \<le> n" and "n < 2 * 2 ^ floor_log2 n"
    using floor_log2_bounds by blast+
next
  show "suffix_gap n = 2 ^ (floor_log2 n - 1)" by (rule suffix_gap_pow2)
next
  show "strides (suffix_gap n) = map (\<lambda>j. 2 ^ j) (rev [0..<Suc (floor_log2 n - 1)])"
    by (simp only: suffix_gap_pow2 strides_pow2)
next
  show "distinct (cut_order g)" by (simp add: cut_order_def untried_distinct)
next
  show "set (cut_order g) = {idx. idx < length g \<and> is_cut g idx}" by (rule cut_order_set)
next
  assume "g \<noteq> [] \<and> operands_precede {} g"
  then show "remove_suffix E g is q = try_cuts E g is (cut_order g) q"
    by (simp add: remove_suffix_def suffix_loop_try_cuts cut_order_def)
qed

theorem remove_suffix_tries_cuts_in_order_witness:
  "(0::nat) < 7 \<and> (2::nat) ^ floor_log2 7 \<le> 7 \<and> (7::nat) < 2 * 2 ^ floor_log2 7 \<and>
   floor_log2 7 = 2 \<and> suffix_gap 7 = 2 \<and> strides (suffix_gap 7) = [2, 1] \<and>
   chain_graph \<noteq> [] \<and> operands_precede {} chain_graph \<and>
   cut_order chain_graph = [2, 4, 1, 3, 5] \<and>
   try_cuts (example_externals needs_node4) chain_graph [Tensor 7] [2, 4, 1, 3, 5] 0 =
     Inr (Some \<lparr>graph = truncation chain_graph 4, inps = [Tensor 7]\<rparr>, 2) \<and>
   remove_suffix (example_externals needs_node4) chain_graph [Tensor 7] 0 =
     Inr (Some \<lparr>graph = truncation chain_graph 4, inps = [Tensor 7]\<rparr>, 2)"
proof -
  let ?E = "example_externals needs_node4"
  have a: "(0::nat) < 7" by simp
  have b: "floor_log2 7 = 2" by code_simp
  have c: "chain_graph \<noteq> [] \<and> operands_precede {} chain_graph" by code_simp
  have d: "cut_order chain_graph = [2, 4, 1, 3, 5]" by code_simp
  have e: "try_cuts ?E chain_graph [Tensor 7] [2, 4, 1, 3, 5] 0 =
     Inr (Some \<lparr>graph = truncation chain_graph 4, inps = [Tensor 7]\<rparr>, 2)"
    by code_simp
  note t = remove_suffix_tries_cuts_in_order [of 7 chain_graph ?E "[Tensor 7]" 0]
  from t a have f: "(2::nat) ^ floor_log2 7 \<le> 7 \<and> (7::nat) < 2 * 2 ^ floor_log2 7" by blast
  have g: "suffix_gap 7 = 2 \<and> strides (suffix_gap 7) = [2, 1]"
    by code_simp
  from t c d e have h: "remove_suffix ?E chain_graph [Tensor 7] 0 =
     Inr (Some \<lparr>graph = truncation chain_graph 4, inps = [Tensor 7]\<rparr>, 2)"
    by simp
  from a b c d e f g h show ?thesis by blast
qed

text \<open>
  C6 as stated fails: for seven nodes the largest power of two below the node count is
  \<open>4\<close>, but the initial stride is \<open>2\<close>.  With a predicate that always holds the
  strategy therefore cuts at position \<open>2\<close>, the first cut point of stride \<open>2\<close>, and
  not at position \<open>4\<close>, whose truncation fails and is smaller as well.
\<close>

theorem initial_stride_counterexample:
  "suffix_gap 7 = 2 \<and> (2::nat) ^ 2 < 7 \<and> suffix_gap 7 < 2 ^ 2 \<and>
   cut_order chain_graph = [2, 4, 1, 3, 5] \<and>
   remove_suffix (example_externals always_fails) chain_graph [Tensor 7] 0 =
     Inr (Some \<lparr>graph = truncation chain_graph 2, inps = [Tensor 7]\<rparr>, 1) \<and>
   module_fails (example_externals always_fails) (truncation chain_graph 4) [Tensor 7] \<and>
   length (truncation chain_graph 4) < length chain_graph"
  by code_simp

section \<open>The precondition of the minifier\<close>

lemma run_strategies_append:
  "run_strategies (xs @ ys) st a q =
     (case run_strategies xs st a q of
        None \<Rightarrow> None
      | Some (Inl e) \<Rightarrow> Some (Inl e)
      | Some (Inr (st1, a1, q1)) \<Rightarrow> run_strategies ys st1 a1 q1)"
  by (induction xs arbitrary: st a q)
     (auto split: option.splits sum.splits prod.splits)

lemma unused_inputs_strategy_asserts:
  assumes "length (get_placeholders (graph st)) \<noteq> length (inps st)"
  shows "run_strategies (drop 2 (strategies E)) st a q = Some (Inl AssertionError)"
  using assms
  by (simp add: strategies_def register_strategy_def remove_unused_inputs_def Let_def)

lemma first_pass_asserts:
  assumes "run_strategies (take 2 (strategies E)) st0 False q = Some (Inr (st, a, q1))"
    and "length (get_placeholders (graph st)) \<noteq> length (inps st)"
  shows "minifier_loop E st0 q = Some (Inl AssertionError)"
proof -
  have "run_strategies (strategies E) st0 False q =
          run_strategies (take 2 (strategies E) @ drop 2 (strategies E)) st0 False q"
    by simp
  also have "\<dots> = run_strategies (drop 2 (strategies E)) st a q1"
    unfolding run_strategies_append using assms(1) by simp
  also have "\<dots> = Some (Inl AssertionError)"
    by (rule unused_inputs_strategy_asserts [OF assms(2)])
  finally show ?thesis
    by (subst minifier_loop.simps) simp
qed

text \<open>
  C3 (as amended).  The minifier first runs the graph on the inputs (line 94); an
  exception of this run ends the minifier before the first query.  The first query is
  put on the graph this run annotated, with the original inputs: a graph that does not
  pass \<^verbatim>\<open>lint\<close> ends the minifier with the exception of \<^verbatim>\<open>lint\<close>, and when the graph
  passes and the predicate answers that the pair does not reproduce the failure, the
  minifier raises the \<^verbatim>\<open>RuntimeError\<close> of line 96 after this one query.  In these
  three cases the minifier ends before the loop, whatever the strategies would do.
  Reproducing the failure is not the only condition of a run: when the pair
  reproduces it, and the state that reaches \<^verbatim>\<open>remove_unused_inputs\<close> in the first pass
  has an input list that is not as long as the list of placeholders of its graph, the
  minifier ends in the \<^verbatim>\<open>AssertionError\<close> of line 156.
\<close>

theorem initial_pair_must_fail:
  "(propagate E fail_f is = Inl e \<longrightarrow> minifier E fail_f is = Some (Inl e)) \<and>
   (propagate E fail_f is = Inr g \<and> \<not> lint E g \<longrightarrow>
      graph_fails E g is 0 = Inl LintError \<and> minifier E fail_f is = Some (Inl LintError)) \<and>
   (propagate E fail_f is = Inr g \<and> lint E g \<and> \<not> module_fails E g is \<longrightarrow>
      graph_fails E g is 0 = Inr (False, 1) \<and>
      minifier E fail_f is = Some (Inl (RuntimeError ''Input graph did not fail the tester''))) \<and>
   (propagate E fail_f is = Inr g \<and> graph_fails E g is 0 = Inr (True, q) \<and>
    run_strategies (take 2 (strategies E)) \<lparr>graph = g, inps = is\<rparr> False q =
      Some (Inr (st, a, q1)) \<and>
    length (get_placeholders (graph st)) \<noteq> length (inps st) \<longrightarrow>
      minifier E fail_f is = Some (Inl AssertionError))"
proof (intro conjI impI)
  assume "propagate E fail_f is = Inl e"
  then show "minifier E fail_f is = Some (Inl e)"
    by (simp add: minifier_def)
next
  assume h: "propagate E fail_f is = Inr g \<and> \<not> lint E g"
  then show "graph_fails E g is 0 = Inl LintError"
    by (simp add: graph_fails_def)
  from h show "minifier E fail_f is = Some (Inl LintError)"
    by (simp add: minifier_def graph_fails_def)
next
  assume h: "propagate E fail_f is = Inr g \<and> lint E g \<and> \<not> module_fails E g is"
  then show "graph_fails E g is 0 = Inr (False, 1)"
    by (simp add: graph_fails_def)
  from h show "minifier E fail_f is =
      Some (Inl (RuntimeError ''Input graph did not fail the tester''))"
    by (simp add: minifier_def graph_fails_def)
next
  assume h: "propagate E fail_f is = Inr g \<and> graph_fails E g is 0 = Inr (True, q) \<and>
    run_strategies (take 2 (strategies E)) \<lparr>graph = g, inps = is\<rparr> False q =
      Some (Inr (st, a, q1)) \<and>
    length (get_placeholders (graph st)) \<noteq> length (inps st)"
  then have "minifier_loop E \<lparr>graph = g, inps = is\<rparr> q = Some (Inl AssertionError)"
    by (blast intro: first_pass_asserts)
  with h show "minifier E fail_f is = Some (Inl AssertionError)"
    by (simp add: minifier_def)
qed

theorem initial_pair_must_fail_witness:
  "propagate (example_externals always_fails) two_node_graph [] =
     Inl (RuntimeError ''Expected positional argument for parameter'') \<and>
   minifier (example_externals always_fails) two_node_graph [] =
     Some (Inl (RuntimeError ''Expected positional argument for parameter'')) \<and>
   propagate (example_externals always_fails) redefined_name_graph [Tensor 7, Tensor 8] =
     Inr (annotated always_fails redefined_name_graph [Tensor 7, Tensor 8]) \<and>
   \<not> lint (example_externals always_fails) (annotated always_fails redefined_name_graph [Tensor 7, Tensor 8]) \<and>
   minifier (example_externals always_fails) redefined_name_graph [Tensor 7, Tensor 8] =
     Some (Inl LintError) \<and>
   propagate (example_externals arity_and_node2) two_node_graph [Tensor 7] =
     Inr (annotated arity_and_node2 two_node_graph [Tensor 7]) \<and>
   lint (example_externals arity_and_node2) (annotated arity_and_node2 two_node_graph [Tensor 7]) \<and>
   \<not> module_fails (example_externals arity_and_node2)
       (annotated arity_and_node2 two_node_graph [Tensor 7]) [Tensor 7] \<and>
   graph_fails (example_externals arity_and_node2)
     (annotated arity_and_node2 two_node_graph [Tensor 7]) [Tensor 7] 0 = Inr (False, 1) \<and>
   minifier (example_externals arity_and_node2) two_node_graph [Tensor 7] =
     Some (Inl (RuntimeError ''Input graph did not fail the tester'')) \<and>
   propagate (example_externals always_fails) two_node_graph [Tensor 7, Tensor 8] =
     Inr (annotated always_fails two_node_graph [Tensor 7, Tensor 8]) \<and>
   graph_fails (example_externals always_fails)
     (annotated always_fails two_node_graph [Tensor 7, Tensor 8]) [Tensor 7, Tensor 8] 0 =
     Inr (True, 1) \<and>
   run_strategies (take 2 (strategies (example_externals always_fails)))
     \<lparr>graph = annotated always_fails two_node_graph [Tensor 7, Tensor 8],
      inps = [Tensor 7, Tensor 8]\<rparr> False 1 =
     Some (Inr (\<lparr>graph = annotated always_fails two_node_graph [Tensor 7, Tensor 8],
                 inps = [Tensor 7, Tensor 8]\<rparr>, False, 1)) \<and>
   length (get_placeholders (annotated always_fails two_node_graph [Tensor 7, Tensor 8])) \<noteq>
     length [Tensor 7, Tensor 8] \<and>
   minifier (example_externals always_fails) two_node_graph [Tensor 7, Tensor 8] =
     Some (Inl AssertionError)"
proof -
  let ?A = "example_externals always_fails"
  let ?B = "example_externals arity_and_node2"
  let ?g1 = "annotated always_fails redefined_name_graph [Tensor 7, Tensor 8]"
  let ?g2 = "annotated arity_and_node2 two_node_graph [Tensor 7]"
  let ?g3 = "annotated always_fails two_node_graph [Tensor 7, Tensor 8]"
  let ?st = "\<lparr>graph = ?g3, inps = [Tensor 7, Tensor 8]\<rparr>"
  have a: "propagate ?A two_node_graph [] =
     Inl (RuntimeError ''Expected positional argument for parameter'')"
    by code_simp
  have b: "propagate ?A redefined_name_graph [Tensor 7, Tensor 8] = Inr ?g1 \<and> \<not> lint ?A ?g1"
    by code_simp
  have c: "propagate ?B two_node_graph [Tensor 7] = Inr ?g2 \<and> lint ?B ?g2 \<and>
           \<not> module_fails ?B ?g2 [Tensor 7]"
    by code_simp
  have d: "propagate ?A two_node_graph [Tensor 7, Tensor 8] = Inr ?g3 \<and>
           graph_fails ?A ?g3 [Tensor 7, Tensor 8] 0 = Inr (True, 1) \<and>
           run_strategies (take 2 (strategies ?A)) ?st False 1 = Some (Inr (?st, False, 1)) \<and>
           length (get_placeholders (graph ?st)) \<noteq> length (inps ?st)"
    by code_simp
  note ta = initial_pair_must_fail
    [of ?A two_node_graph "[]" "RuntimeError ''Expected positional argument for parameter''"]
  note tb = initial_pair_must_fail [of ?A redefined_name_graph "[Tensor 7, Tensor 8]" _ ?g1]
  note tc = initial_pair_must_fail [of ?B two_node_graph "[Tensor 7]" _ ?g2]
  note td = initial_pair_must_fail
    [of ?A two_node_graph "[Tensor 7, Tensor 8]" _ ?g3 1 ?st False 1]
  from ta a have ra: "minifier ?A two_node_graph [] =
     Some (Inl (RuntimeError ''Expected positional argument for parameter''))"
    by blast
  from tb b have rb: "minifier ?A redefined_name_graph [Tensor 7, Tensor 8] = Some (Inl LintError)"
    by blast
  from tc c have rc: "graph_fails ?B ?g2 [Tensor 7] 0 = Inr (False, 1) \<and>
     minifier ?B two_node_graph [Tensor 7] =
       Some (Inl (RuntimeError ''Input graph did not fail the tester''))"
    by blast
  from td d have rd: "minifier ?A two_node_graph [Tensor 7, Tensor 8] =
     Some (Inl AssertionError)"
    by blast
  from d have d': "length (get_placeholders ?g3) \<noteq> length [Tensor 7, Tensor 8]"
    by simp
  from a b c d d' ra rb rc rd show ?thesis by blast
qed

text \<open>
  C3 as stated fails in its last part: reproducing the failure is not the only condition
  under which a run goes through.  On \<open>two_node_graph\<close> with two inputs the run of line
  94 succeeds, the graph is valid and the initial pair reproduces the failure on the
  first query, yet the minifier ends in the \<^verbatim>\<open>AssertionError\<close> of line 156, because
  the graph has one placeholder for the two inputs.
\<close>

theorem only_precondition_counterexample:
  "propagate (example_externals always_fails) two_node_graph [Tensor 7, Tensor 8] =
     Inr (annotated always_fails two_node_graph [Tensor 7, Tensor 8]) \<and>
   graph_fails (example_externals always_fails)
     (annotated always_fails two_node_graph [Tensor 7, Tensor 8]) [Tensor 7, Tensor 8] 0 =
     Inr (True, 1) \<and>
   length (get_placeholders two_node_graph) = 1 \<and>
   minifier (example_externals always_fails) two_node_graph [Tensor 7, Tensor 8] =
     Some (Inl AssertionError)"
  by code_simp

section \<open>What is checked before a query\<close>

text \<open>
  C8 (as amended).  Every query validates the graph first: an answer of \<open>graph_fails\<close>
  is the answer of the predicate on a graph that passed \<^verbatim>\<open>lint\<close>, and a graph that
  fails it raises without an answer.  That the input list is as long as the list of
  placeholder nodes is asserted in one place only, on entry of
  \<^verbatim>\<open>remove_unused_inputs\<close>, for the graph and the inputs it is given.
\<close>

theorem checks_before_query:
  "(graph_fails E g is q = Inr (b, q1) \<longrightarrow> lint E g \<and> b = module_fails E g is \<and> q1 = Suc q) \<and>
   (\<not> lint E g \<longrightarrow> graph_fails E g is q = Inl LintError) \<and>
   (length (get_placeholders g) \<noteq> length is \<longrightarrow> remove_unused_inputs E g is q = Inl AssertionError)"
  by (auto simp: graph_fails_def remove_unused_inputs_def Let_def split: if_splits)

theorem checks_before_query_witness:
  "graph_fails (example_externals always_fails) two_node_graph [Tensor 7, Tensor 8] 0 = Inr (True, 1) \<and>
   lint (example_externals always_fails) two_node_graph \<and>
   \<not> lint (example_externals always_fails) (rev two_node_graph) \<and>
   graph_fails (example_externals always_fails) (rev two_node_graph) [Tensor 7] 0 = Inl LintError \<and>
   length (get_placeholders two_node_graph) \<noteq> length [Tensor 7, Tensor 8] \<and>
   remove_unused_inputs (example_externals always_fails) two_node_graph [Tensor 7, Tensor 8] 0 =
     Inl AssertionError"
proof -
  let ?E = "example_externals always_fails"
  have a: "graph_fails ?E two_node_graph [Tensor 7, Tensor 8] 0 = Inr (True, 1)"
    by code_simp
  have b: "\<not> lint ?E (rev two_node_graph)"
    by code_simp
  have c: "length (get_placeholders two_node_graph) \<noteq> length [Tensor 7, Tensor 8]"
    by code_simp
  from checks_before_query [of ?E two_node_graph "[Tensor 7, Tensor 8]" 0 True 1] a c
  have "lint ?E two_node_graph \<and>
        remove_unused_inputs ?E two_node_graph [Tensor 7, Tensor 8] 0 = Inl AssertionError"
    by blast
  moreover from checks_before_query [of ?E "rev two_node_graph" "[Tensor 7]" 0] b
  have "graph_fails ?E (rev two_node_graph) [Tensor 7] 0 = Inl LintError"
    by blast
  ultimately show ?thesis using a b c by blast
qed

text \<open>
  C8 as stated fails: \<open>graph_fails\<close> answers a query on a graph with one placeholder
  and two inputs, whatever the answer is, and a run on this pair that does not
  reproduce the failure ends in the \<^verbatim>\<open>RuntimeError\<close> of line 96, not in a failed
  check of the lengths.
\<close>

theorem length_check_counterexample:
  "length [Tensor 7, Tensor 8] \<noteq> length (get_placeholders two_node_graph) \<and>
   graph_fails (example_externals always_fails) two_node_graph [Tensor 7, Tensor 8] 0 =
     Inr (True, 1) \<and>
   graph_fails (example_externals arity_and_node2) two_node_graph [Tensor 7, Tensor 8] 0 =
     Inr (False, 1) \<and>
   minifier (example_externals arity_and_node2) two_node_graph [Tensor 7, Tensor 8] =
     Some (Inl (RuntimeError ''Input graph did not fail the tester''))"
  by code_simp

section \<open>Converting a node to a placeholder\<close>

lemma converted_refl: "converted s s"
  by (simp add: converted_def)

lemma as_placeholder_idem: "as_placeholder (as_placeholder n) = as_placeholder n"
  by (simp add: as_placeholder_def)

lemma converted_trans:
  assumes "converted s s1" and "converted s1 s2"
  shows "converted s s2"
proof -
  from assms have len: "length (fst s2) = length (fst s)"
    by (simp add: converted_def)
  from assms obtain vs ws where "snd s1 = snd s @ vs" "snd s2 = snd s1 @ ws"
    by (auto simp: converted_def)
  then have app: "\<exists>us. snd s2 = snd s @ us" by simp
  have nodes: "fst s2 ! j = fst s ! j \<or>
         (op (fst s ! j) \<noteq> Output \<and> fst s2 ! j = as_placeholder (fst s ! j))"
    if j: "j < length (fst s)" for j
  proof -
    from assms(1) j have a: "fst s1 ! j = fst s ! j \<or>
         (op (fst s ! j) \<noteq> Output \<and> fst s1 ! j = as_placeholder (fst s ! j))"
      by (simp add: converted_def)
    from assms j have b: "fst s2 ! j = fst s1 ! j \<or>
         (op (fst s1 ! j) \<noteq> Output \<and> fst s2 ! j = as_placeholder (fst s1 ! j))"
      by (simp add: converted_def)
    from a b show ?thesis
      by (auto simp: as_placeholder_idem)
  qed
  from len app nodes show ?thesis
    unfolding converted_def by blast
qed

lemma fold_res_converted:
  assumes "\<And>x s s1. f x s = Some (Inr s1) \<Longrightarrow> converted s s1"
    and "fold_res f xs s = Some (Inr s1)"
  shows "converted s s1"
  using assms(2)
proof (induction xs arbitrary: s)
  case Nil
  then show ?case by (simp add: converted_refl)
next
  case (Cons x xs)
  then obtain s' where a: "f x s = Some (Inr s')" and b: "fold_res f xs s' = Some (Inr s1)"
    by (auto split: option.splits sum.splits)
  from assms(1) [OF a] Cons.IH [OF b] show ?case by (rule converted_trans)
qed

lemma convert_step_converted:
  assumes "i < length g"
  shows "converted (g, is)
           (g[i := (g ! i)\<lparr>op := Placeholder, args := [], target := name (g ! i)\<rparr>], is @ vs)
         \<or> op (g ! i) = Output"
  using assms
  by (auto simp: converted_def as_placeholder_def nth_list_update)

lemma convert_node_to_placeholder_converted:
  assumes "convert_node_to_placeholder i s = Some r"
  shows "\<forall>s1. r = Inr s1 \<longrightarrow> converted s s1"
proof (rule convert_node_to_placeholder.raw_induct [OF _ assms], goal_cases)
  case (1 conv i s r)
  obtain g "is" where s: "s = (g, is)" by (cases s)
  let ?g1 = "g[i := (g ! i)\<lparr>op := Placeholder, args := [], target := name (g ! i)\<rparr>]"
  have ih: "conv x t = Some (Inr t1) \<Longrightarrow> converted t t1" for x t t1
    using 1(1) by blast
  have step: "converted (g, is) (?g1, is @ vs)" if "op (g ! i) \<noteq> Output" for vs
  proof (cases "i < length g")
    case True
    with that show ?thesis using convert_step_converted [OF True, of "is" vs] by simp
  next
    case False
    then show ?thesis by (simp add: converted_def)
  qed
  show ?case
  proof (cases "op (g ! i) = Output")
    case True
    with 1(2) s show ?thesis by (auto simp: converted_refl)
  next
    case False
    show ?thesis
    proof (cases "concrete_value (g ! i)")
      case None
      with False 1(2) s show ?thesis by (auto simp: Let_def)
    next
      case (Some v)
      show ?thesis
      proof (cases "is_Tensor v")
        case True
        with False Some 1(2) s step [OF False, of "[v]"] show ?thesis
          by (auto simp: Let_def)
      next
        case nt: False
        with False Some 1(2) s
        have "fold_res conv (users_idx ?g1 i) (?g1, is @ [zeros]) = Some r"
          by (simp add: Let_def)
        moreover have "converted t t1" if "fold_res conv xs t = Some (Inr t1)" for xs t t1
          by (rule fold_res_converted [where f = conv, OF _ that]) (rule ih)
        ultimately have "\<forall>s1. r = Inr s1 \<longrightarrow> converted (?g1, is @ [zeros]) s1"
          by blast
        with step [OF False, of "[zeros]"] s show ?thesis
          by (auto intro: converted_trans)
      qed
    qed
  qed
qed

text \<open>
  The cases of the conversion.  An output node is left as it is, and so is the input
  list.  A node that is not an output and for which no value was recorded raises the
  \<^verbatim>\<open>KeyError\<close> of line 46.  A node that is not an output and whose recorded value is
  a tensor becomes a placeholder without operands, and the recorded value is appended
  to the input list.  When the recorded value is not a tensor, \<^verbatim>\<open>torch.zeros(())\<close>
  is appended and the conversion is applied to every consumer of the node in turn.
  Whatever a conversion that returns reaches through its consumers, it leaves every
  output node of the graph untouched, turns nodes into placeholders only, and only
  appends to the input list.  The recorded value of a node is the result the
  interpreter produced for it, recorded only when that result holds a tensor.
\<close>

theorem convert_node_to_placeholder_cases:
  "(op (g ! i) = Output \<longrightarrow> convert_node_to_placeholder i (g, is) = Some (Inr (g, is))) \<and>
   (op (g ! i) \<noteq> Output \<and> concrete_value (g ! i) = None \<longrightarrow>
      convert_node_to_placeholder i (g, is) = Some (Inl KeyError)) \<and>
   (op (g ! i) \<noteq> Output \<and> concrete_value (g ! i) = Some v \<and> is_Tensor v \<longrightarrow>
      convert_node_to_placeholder i (g, is) =
        Some (Inr (g[i := (g ! i)\<lparr>op := Placeholder, args := [], target := name (g ! i)\<rparr>],
                   is @ [v]))) \<and>
   (op (g ! i) \<noteq> Output \<and> concrete_value (g ! i) = Some v \<and> \<not> is_Tensor v \<longrightarrow>
      convert_node_to_placeholder i (g, is) =
        fold_res convert_node_to_placeholder
          (users_idx (g[i := (g ! i)\<lparr>op := Placeholder, args := [], target := name (g ! i)\<rparr>]) i)
          (g[i := (g ! i)\<lparr>op := Placeholder, args := [], target := name (g ! i)\<rparr>],
           is @ [zeros])) \<and>
   (convert_node_to_placeholder i (g, is) = Some (Inr (g1, is1))
      \<longrightarrow> converted (g, is) (g1, is1)) \<and>
   (run_node_super E g0 is0 n = Inr r \<longrightarrow>
      run_node E g0 is0 n =
        Inr (n\<lparr>concrete_value := if has_tensor r then Some r else concrete_value n\<rparr>))"
proof (intro conjI impI)
  assume "convert_node_to_placeholder i (g, is) = Some (Inr (g1, is1))"
  from convert_node_to_placeholder_converted [OF this]
  show "converted (g, is) (g1, is1)" by simp
next
  assume "op (g ! i) = Output"
  then show "convert_node_to_placeholder i (g, is) = Some (Inr (g, is))"
    by (subst convert_node_to_placeholder.simps) simp
next
  assume "op (g ! i) \<noteq> Output \<and> concrete_value (g ! i) = Some v \<and> is_Tensor v"
  then show "convert_node_to_placeholder i (g, is) =
        Some (Inr (g[i := (g ! i)\<lparr>op := Placeholder, args := [], target := name (g ! i)\<rparr>],
                   is @ [v]))"
    by (subst convert_node_to_placeholder.simps) (simp add: Let_def)
next
  assume "op (g ! i) \<noteq> Output \<and> concrete_value (g ! i) = Some v \<and> \<not> is_Tensor v"
  then show "convert_node_to_placeholder i (g, is) =
        fold_res convert_node_to_placeholder
          (users_idx (g[i := (g ! i)\<lparr>op := Placeholder, args := [], target := name (g ! i)\<rparr>]) i)
          (g[i := (g ! i)\<lparr>op := Placeholder, args := [], target := name (g ! i)\<rparr>],
           is @ [zeros])"
    by (subst convert_node_to_placeholder.simps) (simp add: Let_def)
next
  assume "op (g ! i) \<noteq> Output \<and> concrete_value (g ! i) = None"
  then show "convert_node_to_placeholder i (g, is) = Some (Inl KeyError)"
    by (subst convert_node_to_placeholder.simps) (simp add: Let_def)
next
  assume "run_node_super E g0 is0 n = Inr r"
  then show "run_node E g0 is0 n =
        Inr (n\<lparr>concrete_value := if has_tensor r then Some r else concrete_value n\<rparr>)"
    by (simp add: run_node_def)
qed

theorem convert_node_to_placeholder_cases_witness:
  "op (fst diamond_state ! 4) = Output \<and>
   convert_node_to_placeholder 4 diamond_state = Some (Inr diamond_state) \<and>
   op (fst diamond_state ! 3) \<noteq> Output \<and>
   concrete_value (fst diamond_state ! 3) = Some (Tensor 3) \<and> is_Tensor (Tensor 3) \<and>
   convert_node_to_placeholder 3 diamond_state =
     Some (Inr ((fst diamond_state)[3 := as_placeholder (fst diamond_state ! 3)],
                [Tensor 7, Tensor 3])) \<and>
   op (fst diamond_state ! 2) \<noteq> Output \<and>
   concrete_value (fst diamond_state ! 2) = Some (Aggregate [Tensor 2]) \<and>
   \<not> is_Tensor (Aggregate [Tensor 2]) \<and>
   users_idx ((fst diamond_state)[2 := as_placeholder (fst diamond_state ! 2)]) 2 = [3] \<and>
   convert_node_to_placeholder 2 diamond_state =
     fold_res convert_node_to_placeholder [3]
       ((fst diamond_state)[2 := as_placeholder (fst diamond_state ! 2)], [Tensor 7, zeros]) \<and>
   convert_node_to_placeholder 2 diamond_state =
     Some (Inr ((fst diamond_state)
                  [2 := as_placeholder (fst diamond_state ! 2),
                   3 := as_placeholder (fst diamond_state ! 3)],
                [Tensor 7, zeros, Tensor 3])) \<and>
   converted diamond_state
     ((fst diamond_state)
        [2 := as_placeholder (fst diamond_state ! 2),
         3 := as_placeholder (fst diamond_state ! 3)],
      [Tensor 7, zeros, Tensor 3]) \<and>
   op (annotated always_fails size_graph [Tensor 7] ! 1) \<noteq> Output \<and>
   concrete_value (annotated always_fails size_graph [Tensor 7] ! 1) = None \<and>
   convert_node_to_placeholder 1 (annotated always_fails size_graph [Tensor 7], [Tensor 7]) =
     Some (Inl KeyError) \<and>
   run_node_super (example_externals always_fails) diamond_graph [Tensor 7] (diamond_graph ! 2) =
     Inr (Aggregate [Tensor 2]) \<and>
   run_node (example_externals always_fails) diamond_graph [Tensor 7] (diamond_graph ! 2) =
     Inr ((diamond_graph ! 2)\<lparr>concrete_value := Some (Aggregate [Tensor 2])\<rparr>)"
proof -
  let ?g = "fst diamond_state"
  let ?s = "annotated always_fails size_graph [Tensor 7]"
  let ?E = "example_externals always_fails"
  have k: "op (?s ! 1) \<noteq> Output \<and> concrete_value (?s ! 1) = None"
    by code_simp
  have n: "run_node_super ?E diamond_graph [Tensor 7] (diamond_graph ! 2) =
     Inr (Aggregate [Tensor 2]) \<and> has_tensor (Aggregate [Tensor 2])"
    by code_simp
  note t1 = convert_node_to_placeholder_cases [of ?s 1 "[Tensor 7]"]
  note tn = convert_node_to_placeholder_cases
    [of _ _ _ _ _ _ ?E diamond_graph "[Tensor 7]" "diamond_graph ! 2" "Aggregate [Tensor 2]"]
  from t1 k have r1: "convert_node_to_placeholder 1 (?s, [Tensor 7]) = Some (Inl KeyError)"
    by blast
  from tn n have rn: "run_node ?E diamond_graph [Tensor 7] (diamond_graph ! 2) =
     Inr ((diamond_graph ! 2)\<lparr>concrete_value := Some (Aggregate [Tensor 2])\<rparr>)"
    by simp
  have st: "diamond_state = (?g, [Tensor 7])"
    by (simp add: diamond_state_def)
  have a: "op (?g ! 4) = Output"
    by code_simp
  have b: "op (?g ! 3) \<noteq> Output \<and> concrete_value (?g ! 3) = Some (Tensor 3) \<and>
           is_Tensor (Tensor 3)"
    by code_simp
  have c: "op (?g ! 2) \<noteq> Output \<and> concrete_value (?g ! 2) = Some (Aggregate [Tensor 2]) \<and>
           \<not> is_Tensor (Aggregate [Tensor 2])"
    by code_simp
  have u: "users_idx (?g[2 := as_placeholder (?g ! 2)]) 2 = [3]"
    by code_simp
  have r: "convert_node_to_placeholder 2 diamond_state =
     Some (Inr (?g[2 := as_placeholder (?g ! 2), 3 := as_placeholder (?g ! 3)],
                [Tensor 7, zeros, Tensor 3]))"
    by code_simp
  note t4 = convert_node_to_placeholder_cases [of ?g 4 "[Tensor 7]"]
  note t3 = convert_node_to_placeholder_cases [of ?g 3 "[Tensor 7]" "Tensor 3"]
  note t2 = convert_node_to_placeholder_cases [of ?g 2 "[Tensor 7]" "Aggregate [Tensor 2]"]
  from t4 a have r4: "convert_node_to_placeholder 4 diamond_state = Some (Inr diamond_state)"
    using st by metis
  from t3 b have r3: "convert_node_to_placeholder 3 diamond_state =
     Some (Inr (?g[3 := as_placeholder (?g ! 3)], [Tensor 7, Tensor 3]))"
    using st by (simp add: as_placeholder_def)
  from t2 c have r2: "convert_node_to_placeholder 2 diamond_state =
     fold_res convert_node_to_placeholder [3]
       (?g[2 := as_placeholder (?g ! 2)], [Tensor 7, zeros])"
    using st u by (simp add: as_placeholder_def)
  from t2 r st have cv: "converted diamond_state
     (?g[2 := as_placeholder (?g ! 2), 3 := as_placeholder (?g ! 3)],
      [Tensor 7, zeros, Tensor 3])"
    by metis
  from a b c u r r4 r3 r2 cv k n r1 rn show ?thesis by blast
qed

text \<open>
  C7 fails on the code.  In \<open>size_graph\<close> node 1 is an operation whose result holds
  no tensor, so that the run of line 94 records no value for it (line 26).  The node is
  not an output, but converting it to a placeholder appends neither a recorded value nor
  a zero: it raises the \<^verbatim>\<open>KeyError\<close> of line 46, and so does the run of the minifier
  on this graph, when delta debugging converts the node.
\<close>

theorem conversion_without_recorded_value:
  "propagate (example_externals always_fails) size_graph [Tensor 7] =
     Inr (annotated always_fails size_graph [Tensor 7]) \<and>
   op (annotated always_fails size_graph [Tensor 7] ! 1) = Operation \<and>
   run_node_super (example_externals always_fails) size_graph [Tensor 7] (size_graph ! 1) =
     Inr (Scalar 0) \<and>
   \<not> has_tensor (Scalar 0) \<and>
   concrete_value (annotated always_fails size_graph [Tensor 7] ! 1) = None \<and>
   convert_node_to_placeholder 1 (annotated always_fails size_graph [Tensor 7], [Tensor 7]) =
     Some (Inl KeyError) \<and>
   lint (example_externals always_fails) (annotated always_fails size_graph [Tensor 7]) \<and>
   length (get_placeholders size_graph) = length [Tensor 7] \<and>
   minifier (example_externals always_fails) size_graph [Tensor 7] = Some (Inl KeyError)"
  by code_simp

text \<open>
  C10 fails on the code.  In \<open>diamond_graph\<close> node 1 yields a tuple and is consumed by
  node 2, which yields a tuple, and by node 3, which consumes node 2 as well.
  Converting node 1 converts node 3 twice, once as a consumer of node 2 and once as a
  consumer of node 1, and appends its value twice: the placeholders grow from one to
  four, the inputs from one to five.  The run of the minifier on this graph then ends
  in the \<^verbatim>\<open>AssertionError\<close> of line 156.
\<close>

theorem convert_appends_twice:
  "convert_node_to_placeholder 1 diamond_state =
     Some (Inr ((fst diamond_state)
                  [1 := as_placeholder (fst diamond_state ! 1),
                   2 := as_placeholder (fst diamond_state ! 2),
                   3 := as_placeholder (fst diamond_state ! 3)],
                [Tensor 7, zeros, zeros, Tensor 3, Tensor 3])) \<and>
   length (get_placeholders (fst diamond_state)) = 1 \<and>
   length (get_placeholders ((fst diamond_state)
                  [1 := as_placeholder (fst diamond_state ! 1),
                   2 := as_placeholder (fst diamond_state ! 2),
                   3 := as_placeholder (fst diamond_state ! 3)])) = 4 \<and>
   length (snd diamond_state) = 1 \<and>
   length [Tensor 7, zeros, zeros, Tensor 3, Tensor 3] = 5 \<and>
   minifier (example_externals keeps_node3) diamond_graph [Tensor 7] = Some (Inl AssertionError)"
  by code_simp

section \<open>Strategies and the accepted state\<close>

lemma extends_refl: "extends s s"
  by (simp add: extends_def)

lemma extends_trans: "extends s s1 \<Longrightarrow> extends s1 s2 \<Longrightarrow> extends s s2"
  by (auto simp: extends_def)

lemma extends_new_graph: "extends s (snd (new_graph_obj g s))"
  by (simp add: extends_def new_graph_obj_def nth_append)

lemma extends_set_graph: "length (graph_objs s0) \<le> a \<Longrightarrow> extends s0 s \<Longrightarrow> extends s0 (set_graph_obj a g s)"
  by (auto simp: extends_def set_graph_obj_def)

lemma extends_set_list: "length (list_objs s0) \<le> a \<Longrightarrow> extends s0 s \<Longrightarrow> extends s0 (set_list_obj a vs s)"
  by (auto simp: extends_def set_list_obj_def)

lemma extends_keeps:
  assumes "\<And>cur_graph cur_inps s q r s1 q1.
             strategy cur_graph cur_inps s q = Some (Inr (r, s1, q1)) \<Longrightarrow> extends s s1"
  shows "keeps_others strategy"
  unfolding keeps_others_def using assms unfolding extends_def by blast

lemma suffix_loop_store_extends:
  "suffix_loop_store E cur_graph cur_inps gap tested s q = Some (Inr (r, s', q')) \<Longrightarrow> extends s s'"
proof (induction gap arbitrary: tested s q rule: less_induct)
  case (less gap)
  show ?case
  proof (cases "gap \<ge> 1")
    case False
    with less.prems show ?thesis
      by (subst (asm) suffix_loop_store.simps) (simp add: extends_refl)
  next
    case True
    let ?s1 = "s\<lparr>graph_objs := graph_objs s @ [[]]\<rparr>"
    let ?ng = "length (graph_objs s)"
    have e1: "extends s ?s1"
      using extends_new_graph [of s "[]"] by (simp add: new_graph_obj_def)
    have w: "extends s (set_graph_obj ?ng g ?s1)" for g
      by (rule extends_set_graph [OF _ e1]) simp
    have lt: "gap div 2 < gap" using True by simp
    have ih: "suffix_loop_store E cur_graph cur_inps (gap div 2) tested1 s1 q1 =
                Some (Inr (r, s', q')) \<Longrightarrow> extends s1 s'" for tested1 s1 q1
      by (rule less.IH [OF lt])
    from less.prems True show ?thesis
      apply (subst (asm) suffix_loop_store.simps)
      apply (simp add: new_graph_obj_def split: sum.splits option.splits prod.splits)
       apply (insert w ih)
       apply (blast intro: extends_trans)+
      done
  qed
qed

lemma remove_suffix_store_keeps: "keeps_others (remove_suffix_store E)"
  by (rule extends_keeps)
     (auto simp: remove_suffix_store_def split: if_splits dest: suffix_loop_store_extends)

lemma eliminate_dead_code_store_keeps: "keeps_others (eliminate_dead_code_store E)"
  unfolding keeps_others_def eliminate_dead_code_store_def set_graph_obj_def Let_def
  by (auto split: sum.splits option.splits prod.splits if_splits)

lemma remove_unused_inputs_store_keeps: "keeps_others (remove_unused_inputs_store E)"
  unfolding keeps_others_def remove_unused_inputs_store_def set_graph_obj_def new_list_obj_def Let_def
  by (auto split: sum.splits option.splits prod.splits if_splits simp: nth_append)

lemma delta_windows_store_extends:
  "delta_windows_store E cur_graph cur_inps gap starts s q = Some (Inr (r, s', q')) \<Longrightarrow> extends s s'"
proof (induction starts arbitrary: s q)
  case Nil
  then show ?case by (simp add: extends_refl)
next
  case (Cons start_range rest)
  let ?s2 = "s\<lparr>graph_objs := graph_objs s @ [graph_objs s ! cur_graph],
               list_objs := list_objs s @ [list_objs s ! cur_inps]\<rparr>"
  let ?ng = "length (graph_objs s)"
  let ?ni = "length (list_objs s)"
  have e2: "extends s ?s2"
    by (simp add: extends_def nth_append)
  have e3: "extends s (set_list_obj ?ni is1 (set_graph_obj ?ng g1 ?s2))" for g1 is1
    by (rule extends_set_list, simp, rule extends_set_graph, simp, rule e2)
  have e4: "extends s (snd (new_graph_obj g2 (set_list_obj ?ni is1 (set_graph_obj ?ng g1 ?s2))))"
    for g1 is1 g2
    by (rule extends_trans [OF e3 extends_new_graph])
  have ih: "delta_windows_store E cur_graph cur_inps gap rest s1 q1 = Some (Inr (r, s', q'))
              \<Longrightarrow> extends s1 s'" for s1 q1
    by (rule Cons.IH)
  from Cons.prems show ?case
    apply (simp add: Let_def new_graph_obj_def new_list_obj_def
                split: option.splits sum.splits prod.splits if_splits)
      apply (insert e3 e4 ih)
      apply (simp_all add: new_graph_obj_def)
      apply (blast intro: extends_trans)+
    done
qed

lemma delta_loop_store_extends:
  "delta_loop_store E cur_graph cur_inps gap s q = Some (Inr (r, s', q')) \<Longrightarrow> extends s s'"
proof (induction gap arbitrary: s q rule: less_induct)
  case (less gap)
  show ?case
  proof (cases "gap \<ge> 1")
    case False
    with less.prems show ?thesis
      by (subst (asm) delta_loop_store.simps) (simp add: extends_refl)
  next
    case True
    have lt: "gap div 2 < gap" using True by simp
    have ih: "delta_loop_store E cur_graph cur_inps (gap div 2) s1 q1 = Some (Inr (r, s', q'))
                \<Longrightarrow> extends s1 s'" for s1 q1
      by (rule less.IH [OF lt])
    have wi: "delta_windows_store E cur_graph cur_inps gap starts s q = Some (Inr (r1, s1, q1))
                \<Longrightarrow> extends s s1" for starts r1 s1 q1
      by (rule delta_windows_store_extends)
    from less.prems True show ?thesis
      apply (subst (asm) delta_loop_store.simps)
      apply (simp split: option.splits sum.splits prod.splits)
       apply (insert ih wi)
       apply (blast intro: extends_trans)+
      done
  qed
qed

lemma delta_debugging_store_keeps: "keeps_others (delta_debugging_store E)"
  by (rule extends_keeps)
     (auto simp: delta_debugging_store_def Let_def split: if_splits dest: delta_loop_store_extends)

lemma store_strategies_keep:
  "strategy \<in> set (store_strategies E) \<Longrightarrow> keeps_others strategy"
  using remove_suffix_store_keeps eliminate_dead_code_store_keeps
    remove_unused_inputs_store_keeps delta_debugging_store_keeps
  by (auto simp: store_strategies_def)

lemma register_strategy_store_extends:
  assumes k: "keeps_others strategy"
    and r: "register_strategy_store E strategy old_state s q = Some (Inr (res, s', q'))"
  shows "extends s s'"
proof -
  let ?s2 = "s\<lparr>graph_objs := graph_objs s @ [graph_objs s ! graph_ref old_state],
               list_objs := list_objs s @ [list_objs s ! inps_ref old_state]\<rparr>"
  let ?gc = "length (graph_objs s)"
  let ?ic = "length (list_objs s)"
  from r obtain r3 q3 where st: "strategy ?gc ?ic ?s2 q = Some (Inr (r3, s', q3))"
    unfolding register_strategy_store_def new_graph_obj_def new_list_obj_def Let_def
    by (auto split: option.splits sum.splits prod.splits if_splits)
  from k st have
    "length (graph_objs ?s2) \<le> length (graph_objs s')"
    "length (list_objs ?s2) \<le> length (list_objs s')"
    "\<forall>a < length (graph_objs ?s2). a \<noteq> ?gc \<longrightarrow> graph_objs s' ! a = graph_objs ?s2 ! a"
    "\<forall>a < length (list_objs ?s2). a \<noteq> ?ic \<longrightarrow> list_objs s' ! a = list_objs ?s2 ! a"
    unfolding keeps_others_def by blast+
  then show ?thesis by (auto simp: extends_def nth_append)
qed

lemma contents_simps [simp]:
  "contents None = None"
  "contents (Some (Inl e)) = Some (Inl e)"
  "contents (Some (Inr (r, s, q))) = Some (Inr (map_option (deref s) r, q))"
  by (simp_all add: contents_def content_def)

lemma eliminate_dead_code_store_contents:
  assumes "cur_graph < length (graph_objs s)"
  shows "contents (eliminate_dead_code_store E cur_graph cur_inps s q) =
         Some (eliminate_dead_code E (graph_objs s ! cur_graph) (list_objs s ! cur_inps) q)"
  using assms
  by (auto simp: eliminate_dead_code_store_def eliminate_dead_code_def Let_def deref_def
                 set_graph_obj_def split: prod.splits sum.splits)

lemma remove_unused_inputs_store_contents:
  assumes "cur_graph < length (graph_objs s)"
  shows "contents (remove_unused_inputs_store E cur_graph cur_inps s q) =
         Some (remove_unused_inputs E (graph_objs s ! cur_graph) (list_objs s ! cur_inps) q)"
  using assms
  by (auto simp: remove_unused_inputs_store_def remove_unused_inputs_def Let_def deref_def
                 set_graph_obj_def new_list_obj_def split: prod.splits sum.splits)

lemma suffix_scan_inps:
  "suffix_scan E g is gap xs new_graph env tested q = Inr (Some st, tested1, q1) \<Longrightarrow> inps st = is"
  by (induction xs arbitrary: new_graph env tested q)
     (auto simp: Let_def split: sum.splits if_splits prod.splits)

lemma suffix_loop_store_contents:
  assumes "cur_graph < length (graph_objs s)" and "cur_inps < length (list_objs s)"
  shows "contents (suffix_loop_store E cur_graph cur_inps gap tested s q) =
         Some (suffix_loop E (graph_objs s ! cur_graph) (list_objs s ! cur_inps) gap tested q)"
  using assms
proof (induction gap arbitrary: tested s q rule: less_induct)
  case (less gap)
  let ?G = "graph_objs s ! cur_graph"
  let ?I = "list_objs s ! cur_inps"
  show ?case
  proof (cases "gap \<ge> 1")
    case False
    then show ?thesis
      by (subst suffix_loop_store.simps, subst suffix_loop.simps) simp
  next
    case True
    have lt: "gap div 2 < gap" using True by simp
    let ?s1 = "s\<lparr>graph_objs := graph_objs s @ [[]]\<rparr>"
    let ?ng = "length (graph_objs s)"
    have G1: "graph_objs ?s1 ! cur_graph = ?G" using less.prems by (simp add: nth_append)
    show ?thesis
    proof (cases "suffix_scan E ?G ?I gap (enumerate 0 ?G) [] {} tested q")
      case (Inl e)
      with True G1 show ?thesis
        by (subst suffix_loop_store.simps, subst suffix_loop.simps)
           (simp add: new_graph_obj_def)
    next
      case (Inr p)
      obtain r tested1 q1 where p: "p = (r, tested1, q1)" by (cases p)
      show ?thesis
      proof (cases r)
        case None
        let ?s2 = "set_graph_obj ?ng ?G ?s1"
        have v: "cur_graph < length (graph_objs ?s2)" "cur_inps < length (list_objs ?s2)"
          using less.prems by (simp_all add: set_graph_obj_def)
        have c: "graph_objs ?s2 ! cur_graph = ?G" "list_objs ?s2 ! cur_inps = ?I"
          using less.prems by (simp_all add: set_graph_obj_def nth_append)
        from less.IH [OF lt v, of tested1 q1] c
        have ih: "contents (suffix_loop_store E cur_graph cur_inps (gap div 2) tested1 ?s2 q1) =
                  Some (suffix_loop E ?G ?I (gap div 2) tested1 q1)"
          by simp
        from True G1 Inr p None ih show ?thesis
          by (subst suffix_loop_store.simps, subst suffix_loop.simps)
             (simp add: new_graph_obj_def)
      next
        case (Some st)
        from Inr p Some have "inps st = ?I" using suffix_scan_inps by blast
        with True G1 Inr p Some less.prems show ?thesis
          by (subst suffix_loop_store.simps, subst suffix_loop.simps)
             (simp add: new_graph_obj_def deref_def set_graph_obj_def)
      qed
    qed
  qed
qed

lemma remove_suffix_store_contents:
  assumes "cur_graph < length (graph_objs s)" and "cur_inps < length (list_objs s)"
  shows "contents (remove_suffix_store E cur_graph cur_inps s q) =
         Some (remove_suffix E (graph_objs s ! cur_graph) (list_objs s ! cur_inps) q)"
  using assms
  by (simp add: remove_suffix_store_def remove_suffix_def suffix_loop_store_contents)


lemma delta_windows_store_contents:
  assumes "cur_graph < length (graph_objs s)" and "cur_inps < length (list_objs s)"
  shows "contents (delta_windows_store E cur_graph cur_inps gap starts s q) =
         delta_windows E (graph_objs s ! cur_graph) (list_objs s ! cur_inps) gap starts q"
  using assms
proof (induction starts arbitrary: s q)
  case Nil
  show ?case by simp
next
  case (Cons start_range rest)
  let ?G = "graph_objs s ! cur_graph"
  let ?I = "list_objs s ! cur_inps"
  let ?ng = "length (graph_objs s)"
  let ?ni = "length (list_objs s)"
  let ?s2 = "s\<lparr>graph_objs := graph_objs s @ [?G], list_objs := list_objs s @ [?I]\<rparr>"
  let ?r = "[start_range..<min (length ?G) (start_range + gap)]"
  have G2: "graph_objs ?s2 ! cur_graph = ?G" "list_objs ?s2 ! cur_inps = ?I"
    "graph_objs ?s2 ! ?ng = ?G" "list_objs ?s2 ! ?ni = ?I"
    using Cons.prems by (simp_all add: nth_append)
  have unfold: "delta_windows_store E cur_graph cur_inps gap (start_range # rest) s q =
     (case convert_range ?r (?G, ?I, False) of
        None \<Rightarrow> None
      | Some (Inl e) \<Rightarrow> Some (Inl e)
      | Some (Inr (g1, is1, is_removing)) \<Rightarrow>
          (let s3 = set_list_obj ?ni is1 (set_graph_obj ?ng g1 ?s2) in
           if \<not> is_removing then delta_windows_store E cur_graph cur_inps gap rest s3 q
           else
             (case consolidate_placeholders g1 of
                Inl e \<Rightarrow> Some (Inl e)
              | Inr g2 \<Rightarrow>
                  (case graph_fails E g2 is1 q of
                     Inl e \<Rightarrow> Some (Inl e)
                   | Inr (b, q1) \<Rightarrow>
                       if b then
                         Some (Inr (Some \<lparr>graph_ref = length (graph_objs s3), inps_ref = ?ni\<rparr>,
                                    s3\<lparr>graph_objs := graph_objs s3 @ [g2]\<rparr>, q1))
                       else delta_windows_store E cur_graph cur_inps gap rest
                              (s3\<lparr>graph_objs := graph_objs s3 @ [g2]\<rparr>) q1))))"
    using G2 Cons.prems
    by (simp add: new_graph_obj_def new_list_obj_def Let_def nth_append
             split: option.splits sum.splits prod.splits)
  show ?case
  proof (cases "convert_range ?r (?G, ?I, False)")
    case None
    then show ?thesis unfolding unfold by (simp add: Let_def)
  next
    case (Some x)
    show ?thesis
    proof (cases x)
      case (Inl e)
      with Some show ?thesis unfolding unfold by (simp add: Let_def)
    next
      case (Inr t)
      obtain g1 is1 is_removing where t: "t = (g1, is1, is_removing)" by (cases t)
      let ?s3 = "set_list_obj ?ni is1 (set_graph_obj ?ng g1 ?s2)"
      have v3: "cur_graph < length (graph_objs ?s3)" "cur_inps < length (list_objs ?s3)"
        using Cons.prems by (simp_all add: set_list_obj_def set_graph_obj_def)
      have c3: "graph_objs ?s3 ! cur_graph = ?G" "list_objs ?s3 ! cur_inps = ?I"
        "list_objs ?s3 ! ?ni = is1"
        using Cons.prems by (simp_all add: set_list_obj_def set_graph_obj_def nth_append)
      have ih3: "contents (delta_windows_store E cur_graph cur_inps gap rest ?s3 q1) =
                 delta_windows E ?G ?I gap rest q1" for q1
        using Cons.IH [OF v3, of q1] c3 by simp
      show ?thesis
      proof (cases is_removing)
        case False
        with Some Inr t ih3 show ?thesis unfolding unfold by (simp add: Let_def)
      next
        case True
        show ?thesis
        proof (cases "consolidate_placeholders g1")
          case (Inl e)
          with Some Inr t True show ?thesis
            unfolding unfold \<open>x = Inr t\<close> by (simp add: Let_def)
        next
          case g2: (Inr g2)
          let ?s4 = "?s3\<lparr>graph_objs := graph_objs ?s3 @ [g2]\<rparr>"
          have v4: "cur_graph < length (graph_objs ?s4)" "cur_inps < length (list_objs ?s4)"
            using v3 by simp_all
          have c4: "graph_objs ?s4 ! cur_graph = ?G" "list_objs ?s4 ! cur_inps = ?I"
            "list_objs ?s4 ! ?ni = is1" "graph_objs ?s4 ! length (graph_objs ?s3) = g2"
            using c3 v3 by (simp_all add: nth_append)
          have ih4: "contents (delta_windows_store E cur_graph cur_inps gap rest ?s4 q1) =
                     delta_windows E ?G ?I gap rest q1" for q1
            using Cons.IH [OF v4, of q1] c4 by simp
          show ?thesis
          proof (cases "graph_fails E g2 is1 q")
            case (Inl e)
            with Some \<open>x = Inr t\<close> t True g2 show ?thesis
              unfolding unfold by (simp add: Let_def)
          next
            case (Inr bq)
            obtain b q1 where bq: "bq = (b, q1)" by (cases bq)
            show ?thesis
            proof (cases b)
              case b: True
              have "deref ?s4 \<lparr>graph_ref = length (graph_objs ?s3), inps_ref = ?ni\<rparr> =
                    \<lparr>graph = g2, inps = is1\<rparr>"
                using c4 by (simp add: deref_def)
              with Some \<open>x = Inr t\<close> t True g2 Inr bq b show ?thesis
                unfolding unfold by (simp add: Let_def)
            next
              case b: False
              with Some \<open>x = Inr t\<close> t True g2 Inr bq ih4 [of q1] show ?thesis
                unfolding unfold by (simp add: Let_def)
            qed
          qed
        qed
      qed
    qed
  qed
qed


lemma delta_loop_store_contents:
  assumes "cur_graph < length (graph_objs s)" and "cur_inps < length (list_objs s)"
  shows "contents (delta_loop_store E cur_graph cur_inps gap s q) =
         delta_loop E (graph_objs s ! cur_graph) (list_objs s ! cur_inps) gap q"
  using assms
proof (induction gap arbitrary: s q rule: less_induct)
  case (less gap)
  let ?G = "graph_objs s ! cur_graph"
  let ?I = "list_objs s ! cur_inps"
  let ?w = "delta_windows_store E cur_graph cur_inps gap (range_step (length ?G) gap) s q"
  have w: "contents ?w = delta_windows E ?G ?I gap (range_step (length ?G) gap) q"
    by (rule delta_windows_store_contents [OF less.prems])
  show ?case
  proof (cases "gap \<ge> 1")
    case False
    then show ?thesis
      by (subst delta_loop_store.simps, subst delta_loop.simps) simp
  next
    case True
    have lt: "gap div 2 < gap" using True by simp
    show ?thesis
    proof (cases ?w)
      case None
      with w have "delta_windows E ?G ?I gap (range_step (length ?G) gap) q = None" by simp
      with None True show ?thesis
        by (subst delta_loop_store.simps, subst delta_loop.simps) simp
    next
      case (Some x)
      show ?thesis
      proof (cases x)
        case (Inl e)
        with Some w have "delta_windows E ?G ?I gap (range_step (length ?G) gap) q = Some (Inl e)"
          by simp
        with Some Inl True show ?thesis
          by (subst delta_loop_store.simps, subst delta_loop.simps) simp
      next
        case (Inr t)
        obtain r s1 q1 where t: "t = (r, s1, q1)" by (cases t)
        from Some Inr t have ws: "?w = Some (Inr (r, s1, q1))" by simp
        from w ws have pw: "delta_windows E ?G ?I gap (range_step (length ?G) gap) q =
                            Some (Inr (map_option (deref s1) r, q1))"
          by simp
        show ?thesis
        proof (cases r)
          case (Some st)
          with ws pw True show ?thesis
            by (subst delta_loop_store.simps, subst delta_loop.simps) simp
        next
          case None
          from delta_windows_store_extends [OF ws] have e: "extends s s1" .
          with less.prems have v: "cur_graph < length (graph_objs s1)"
            "cur_inps < length (list_objs s1)"
            and c: "graph_objs s1 ! cur_graph = ?G" "list_objs s1 ! cur_inps = ?I"
            by (auto simp: extends_def)
          from less.IH [OF lt v, of q1] c
          have ih: "contents (delta_loop_store E cur_graph cur_inps (gap div 2) s1 q1) =
                    delta_loop E ?G ?I (gap div 2) q1"
            by simp
          from None ws pw True ih show ?thesis
            by (subst delta_loop_store.simps, subst delta_loop.simps) simp
        qed
      qed
    qed
  qed
qed

lemma delta_debugging_store_contents:
  assumes "cur_graph < length (graph_objs s)" and "cur_inps < length (list_objs s)"
  shows "contents (delta_debugging_store E cur_graph cur_inps s q) =
         delta_debugging E (graph_objs s ! cur_graph) (list_objs s ! cur_inps) q"
  using assms
  by (simp add: delta_debugging_store_def delta_debugging_def Let_def delta_loop_store_contents)

lemma store_strategies_contents:
  assumes "k < 4" and "cur_graph < length (graph_objs s)" and "cur_inps < length (list_objs s)"
  shows "contents ((store_strategies E ! k) cur_graph cur_inps s q) =
         (pure_strategies E ! k) (graph_objs s ! cur_graph) (list_objs s ! cur_inps) q"
proof -
  from assms(1) have "k = 0 \<or> k = 1 \<or> k = 2 \<or> k = 3" by arith
  then show ?thesis
    using assms(2,3)
    by (auto simp: store_strategies_def pure_strategies_def remove_suffix_store_contents
          eliminate_dead_code_store_contents remove_unused_inputs_store_contents
          delta_debugging_store_contents)
qed

lemma register_strategy_store_contents:
  assumes k: "keeps_others strategy"
    and c: "\<And>cur_graph cur_inps s q.
              cur_graph < length (graph_objs s) \<Longrightarrow> cur_inps < length (list_objs s) \<Longrightarrow>
              contents (strategy cur_graph cur_inps s q) =
                pure (graph_objs s ! cur_graph) (list_objs s ! cur_inps) q"
    and g: "graph_ref old_state < length (graph_objs s)"
    and i: "inps_ref old_state < length (list_objs s)"
  shows "contents (register_strategy_store E strategy old_state s q) =
         register_strategy E pure (deref s old_state) q"
proof -
  let ?G = "graph_objs s ! graph_ref old_state"
  let ?I = "list_objs s ! inps_ref old_state"
  let ?s2 = "s\<lparr>graph_objs := graph_objs s @ [?G], list_objs := list_objs s @ [?I]\<rparr>"
  let ?gc = "length (graph_objs s)"
  let ?ic = "length (list_objs s)"
  let ?run = "strategy ?gc ?ic ?s2 q"
  have p: "contents ?run = pure ?G ?I q"
    using c [of ?gc ?s2 ?ic q] by (simp add: nth_append)
  have unfold: "register_strategy_store E strategy old_state s q =
     (case ?run of
        None \<Rightarrow> None
      | Some (Inl e) \<Rightarrow> Some (Inl e)
      | Some (Inr (None, s3, q1)) \<Rightarrow> Some (Inr (None, s3, q1))
      | Some (Inr (Some new_state, s3, q1)) \<Rightarrow>
          (let new_nodes = length (graph_objs s3 ! graph_ref new_state);
               old_nodes = length (graph_objs s3 ! graph_ref old_state);
               new_inps = length (list_objs s3 ! inps_ref new_state);
               old_inps = length (list_objs s3 ! inps_ref old_state)
           in if new_nodes < old_nodes \<or> (new_nodes = old_nodes \<and> new_inps > old_inps)
              then (case graph_fails E (graph_objs s3 ! graph_ref new_state)
                           (list_objs s3 ! inps_ref new_state) q1 of
                      Inl e \<Rightarrow> Some (Inl e)
                    | Inr (b, q2) \<Rightarrow>
                        if \<not> b then Some (Inr (None, s3, q2))
                        else Some (Inr (Some new_state, s3, q2)))
              else Some (Inl (RuntimeError ''Success raised but no progress made?''))))"
    using i by (simp add: register_strategy_store_def new_graph_obj_def new_list_obj_def nth_append)
  show ?thesis
  proof (cases ?run)
    case None
    with p have "pure ?G ?I q = None" by simp
    with None show ?thesis unfolding unfold
      by (simp add: register_strategy_def deref_def)
  next
    case (Some x)
    show ?thesis
    proof (cases x)
      case (Inl e)
      with Some p have "pure ?G ?I q = Some (Inl e)" by simp
      with Some Inl show ?thesis unfolding unfold
        by (simp add: register_strategy_def deref_def)
    next
      case (Inr t)
      obtain r s3 q1 where t: "t = (r, s3, q1)" by (cases t)
      from Some Inr t have run: "?run = Some (Inr (r, s3, q1))" by simp
      from p run have pr: "pure ?G ?I q = Some (Inr (map_option (deref s3) r, q1))" by simp
      from k run g i have old: "graph_objs s3 ! graph_ref old_state = ?G"
        "list_objs s3 ! inps_ref old_state = ?I"
        unfolding keeps_others_def
        by (fastforce simp: nth_append)+
      show ?thesis
      proof (cases r)
        case None
        with run pr show ?thesis unfolding unfold
          by (simp add: register_strategy_def deref_def)
      next
        case (Some new_state)
        with run pr old show ?thesis unfolding unfold
          by (auto simp: register_strategy_def deref_def Let_def split: sum.splits)
      qed
    qed
  qed
qed

lemma store_strategies_nth_keep:
  "k < length (store_strategies E) \<Longrightarrow> keeps_others (store_strategies E ! k)"
  by (rule store_strategies_keep [of _ E]) simp

text \<open>
  C9.  An invocation of a wrapped strategy on the accepted state leaves every object
  that existed before the invocation as it was, in particular the graph and the input
  list of the accepted state, whether the strategy returns no progress or a candidate:
  the wrapper hands a deep copy of the graph and a copy of the input list to the
  strategy, and a strategy updates only these two objects and objects it creates.  On
  the contents of the objects, the invocation computes what \<open>register_strategy\<close>
  computes on values.
\<close>

theorem strategies_work_on_copies:
  "k < length (store_strategies E) \<and>
   graph_ref old_state < length (graph_objs s) \<and> inps_ref old_state < length (list_objs s)
   \<longrightarrow> contents (register_strategy_store E (store_strategies E ! k) old_state s q) =
         register_strategy E (pure_strategies E ! k) (deref s old_state) q \<and>
       (register_strategy_store E (store_strategies E ! k) old_state s q = Some (Inr (res, s', q'))
          \<longrightarrow> extends s s' \<and> deref s' old_state = deref s old_state)"
proof (intro impI, elim conjE)
  assume k: "k < length (store_strategies E)"
    and g: "graph_ref old_state < length (graph_objs s)"
    and i: "inps_ref old_state < length (list_objs s)"
  from k have k4: "k < 4" by (simp add: store_strategies_def)
  have a: "contents (register_strategy_store E (store_strategies E ! k) old_state s q) =
           register_strategy E (pure_strategies E ! k) (deref s old_state) q"
    by (rule register_strategy_store_contents
              [OF store_strategies_nth_keep [OF k] store_strategies_contents [OF k4] g i])
  have b: "extends s s' \<and> deref s' old_state = deref s old_state"
    if r: "register_strategy_store E (store_strategies E ! k) old_state s q =
             Some (Inr (res, s', q'))"
  proof -
    from register_strategy_store_extends [OF store_strategies_nth_keep [OF k] r]
    have e: "extends s s'" .
    with g i have "deref s' old_state = deref s old_state"
      by (simp add: extends_def deref_def)
    with e show ?thesis by simp
  qed
  from a b show "contents (register_strategy_store E (store_strategies E ! k) old_state s q) =
         register_strategy E (pure_strategies E ! k) (deref s old_state) q \<and>
       (register_strategy_store E (store_strategies E ! k) old_state s q = Some (Inr (res, s', q'))
          \<longrightarrow> extends s s' \<and> deref s' old_state = deref s old_state)"
    by blast
qed

theorem strategies_work_on_copies_witness:
  "(1::nat) < length (store_strategies (example_externals needs_node1)) \<and>
   graph_ref \<lparr>graph_ref = 0, inps_ref = 0\<rparr> < length (graph_objs size_store) \<and>
   inps_ref \<lparr>graph_ref = 0, inps_ref = 0\<rparr> < length (list_objs size_store) \<and>
   store_strategies (example_externals needs_node1) ! 1 =
     eliminate_dead_code_store (example_externals needs_node1) \<and>
   register_strategy_store (example_externals needs_node1)
     (eliminate_dead_code_store (example_externals needs_node1))
     \<lparr>graph_ref = 0, inps_ref = 0\<rparr> size_store 1 = Some (Inr (None, size_store1, 2)) \<and>
   register_strategy (example_externals needs_node1)
     (pure_strategies (example_externals needs_node1) ! 1)
     (deref size_store \<lparr>graph_ref = 0, inps_ref = 0\<rparr>) 1 = Some (Inr (None, 2)) \<and>
   extends size_store size_store1 \<and>
   deref size_store1 \<lparr>graph_ref = 0, inps_ref = 0\<rparr> =
     deref size_store \<lparr>graph_ref = 0, inps_ref = 0\<rparr> \<and>
   graph_objs size_store1 ! 1 \<noteq> graph_objs size_store1 ! 0"
proof -
  let ?E = "example_externals needs_node1"
  let ?o = "\<lparr>graph_ref = 0, inps_ref = 0\<rparr>"
  have a: "(1::nat) < length (store_strategies ?E) \<and>
           store_strategies ?E ! 1 = eliminate_dead_code_store ?E"
    by (simp add: store_strategies_def)
  have b: "graph_ref ?o < length (graph_objs size_store) \<and>
           inps_ref ?o < length (list_objs size_store)"
    by (simp add: size_store_def)
  have c: "register_strategy_store ?E (eliminate_dead_code_store ?E) ?o size_store 1 =
             Some (Inr (None, size_store1, 2))"
    by code_simp
  have d: "graph_objs size_store1 ! 1 \<noteq> graph_objs size_store1 ! 0"
    by code_simp
  note t = strategies_work_on_copies [of 1 ?E ?o size_store 1 None size_store1 2]
  from t a b c
  have e: "register_strategy ?E (pure_strategies ?E ! 1) (deref size_store ?o) 1 =
             Some (Inr (None, 2))"
    by simp
  from t a b c
  have f: "extends size_store size_store1 \<and> deref size_store1 ?o = deref size_store ?o"
    by simp
  from a b c d e f show ?thesis by blast
qed

section \<open>The driver\<close>

lemma run_strategies_no_success:
  assumes "run_strategies ss st a q = Some (Inr (st1, False, q1))"
  shows "st1 = st \<and> \<not> a"
  using assms
proof (induction ss arbitrary: st a q)
  case Nil
  then show ?case by simp
next
  case (Cons s ss)
  show ?case
  proof (cases "s st q")
    case None
    with Cons.prems show ?thesis by simp
  next
    case (Some r)
    show ?thesis
    proof (cases r)
      case (Inl e)
      with Some Cons.prems show ?thesis by simp
    next
      case (Inr p)
      obtain o' q' where p: "p = (o', q')" by (cases p)
      show ?thesis
      proof (cases o')
        case None
        with Some Inr p Cons.prems
        have "run_strategies ss st a q' = Some (Inr (st1, False, q1))" by simp
        from Cons.IH [OF this] show ?thesis .
      next
        case (Some new_state)
        with \<open>s st q = Some r\<close> Inr p Cons.prems
        have "run_strategies ss new_state True q' = Some (Inr (st1, False, q1))" by simp
        from Cons.IH [OF this] show ?thesis by simp
      qed
    qed
  qed
qed

lemma run_strategies_all_None:
  assumes "run_strategies ss st a q = Some (Inr (st1, False, q1))"
  shows "\<forall>s \<in> set ss. \<exists>q2 q3. s st q2 = Some (Inr (None, q3))"
  using assms
proof (induction ss arbitrary: q)
  case Nil
  then show ?case by simp
next
  case (Cons s ss)
  show ?case
  proof (cases "s st q")
    case None
    with Cons.prems show ?thesis by simp
  next
    case (Some r)
    show ?thesis
    proof (cases r)
      case (Inl e)
      with Some Cons.prems show ?thesis by simp
    next
      case (Inr p)
      obtain o' q' where p: "p = (o', q')" by (cases p)
      show ?thesis
      proof (cases o')
        case None
        with Some Inr p Cons.prems
        have "run_strategies ss st a q' = Some (Inr (st1, False, q1))" by simp
        from Cons.IH [OF this] Some Inr p None show ?thesis by auto
      next
        case new: (Some new_state)
        with Some Inr p Cons.prems
        have "run_strategies ss new_state True q' = Some (Inr (st1, False, q1))" by simp
        from run_strategies_no_success [OF this] show ?thesis by simp
      qed
    qed
  qed
qed

lemma minifier_loop_exit:
  assumes "run_strategies (strategies E) st False q = Some (Inr (st1, False, q1))"
  shows "minifier_loop E st q = Some (Inr (st1, q1))"
  by (subst minifier_loop.simps) (simp add: assms)

lemma minifier_loop_continue:
  assumes "run_strategies (strategies E) st False q = Some (Inr (st1, True, q1))"
  shows "minifier_loop E st q = minifier_loop E st1 q1"
  by (subst minifier_loop.simps) (simp add: assms)

lemma minifier_loop_result:
  assumes "minifier_loop E st q = Some r"
  shows "\<forall>st' q'. r = Inr (st', q') \<longrightarrow>
           (\<exists>q0. run_strategies (strategies E) st' False q0 = Some (Inr (st', False, q'))) \<and>
           (st' = st \<or> progress st' st)"
proof (rule minifier_loop.raw_induct [OF _ assms], goal_cases)
  case (1 loop E st q r)
  show ?case
  proof (cases "run_strategies (strategies E) st False q")
    case None
    with 1(2) show ?thesis by simp
  next
    case (Some x)
    show ?thesis
    proof (cases x)
      case (Inl e)
      with Some 1(2) show ?thesis by auto
    next
      case (Inr p)
      obtain st1 a q1 where p: "p = (st1, a, q1)" by (cases p)
      show ?thesis
      proof (cases a)
        case False
        with Some Inr p 1(2) have r: "r = Inr (st1, q1)" by simp
        from Some Inr p False
        have run: "run_strategies (strategies E) st False q = Some (Inr (st1, False, q1))"
          by simp
        from run_strategies_no_success [OF run] have "st1 = st" by simp
        with r run show ?thesis by auto
      next
        case True
        with Some Inr p 1(2) have "loop E st1 q1 = Some r" by simp
        from 1(1) [OF this]
        have ih: "\<forall>st' q'. r = Inr (st', q') \<longrightarrow>
           (\<exists>q0. run_strategies (strategies E) st' False q0 = Some (Inr (st', False, q'))) \<and>
           (st' = st1 \<or> progress st' st1)" .
        from Some Inr p True
        have "run_strategies (strategies E) st False q = Some (Inr (st1, True, q1))" by simp
        from run_strategies_progress [OF strategies_wrapped this]
        have "progress st1 st" by simp
        with ih show ?thesis by (auto intro: progress_trans)
      qed
    qed
  qed
qed

text \<open>
  The order of a pass and the exit of the loop (lines 216 to 229).  A pass runs the
  wrapped strategies truncate suffix, eliminate dead code, remove unused inputs, delta
  debugging, eliminate dead code, remove unused inputs, in this order.  When a pass ends
  with no success, every strategy returned no progress, the state is the one the pass
  started from and the loop exits with it; when a pass ends with a success, the state
  is an improvement and the loop goes on from it.  Whenever the loop exits, the state
  it yields went through a full pass unchanged, and is the initial state or an
  improvement of it.  What the minifier returns after the loop is another matter, see
  below.
\<close>

theorem driver_pass_order_and_exit:
  "strategies E =
     [register_strategy E (\<lambda>g is q. Some (remove_suffix E g is q)),
      register_strategy E (\<lambda>g is q. Some (eliminate_dead_code E g is q)),
      register_strategy E (\<lambda>g is q. Some (remove_unused_inputs E g is q)),
      register_strategy E (delta_debugging E),
      register_strategy E (\<lambda>g is q. Some (eliminate_dead_code E g is q)),
      register_strategy E (\<lambda>g is q. Some (remove_unused_inputs E g is q))] \<and>
   (run_strategies (strategies E) failing_state False q = Some (Inr (st1, False, q1))
      \<longrightarrow> st1 = failing_state \<and>
          (\<forall>s \<in> set (strategies E). \<exists>q2 q3. s failing_state q2 = Some (Inr (None, q3))) \<and>
          minifier_loop E failing_state q = Some (Inr (failing_state, q1))) \<and>
   (run_strategies (strategies E) failing_state False q = Some (Inr (st1, True, q1))
      \<longrightarrow> progress st1 failing_state \<and>
          minifier_loop E failing_state q = minifier_loop E st1 q1) \<and>
   (minifier_loop E failing_state q = Some (Inr (final_state, q2))
      \<longrightarrow> (\<exists>q0. run_strategies (strategies E) final_state False q0 =
                  Some (Inr (final_state, False, q2))) \<and>
          (final_state = failing_state \<or> progress final_state failing_state))"
proof (intro conjI impI)
  show "strategies E =
     [register_strategy E (\<lambda>g is q. Some (remove_suffix E g is q)),
      register_strategy E (\<lambda>g is q. Some (eliminate_dead_code E g is q)),
      register_strategy E (\<lambda>g is q. Some (remove_unused_inputs E g is q)),
      register_strategy E (delta_debugging E),
      register_strategy E (\<lambda>g is q. Some (eliminate_dead_code E g is q)),
      register_strategy E (\<lambda>g is q. Some (remove_unused_inputs E g is q))]"
    by (simp add: strategies_def)
next
  assume a: "run_strategies (strategies E) failing_state False q = Some (Inr (st1, False, q1))"
  from run_strategies_no_success [OF a] show "st1 = failing_state" by simp
  from run_strategies_all_None [OF a]
  show "\<forall>s \<in> set (strategies E). \<exists>q2 q3. s failing_state q2 = Some (Inr (None, q3))" .
  from \<open>st1 = failing_state\<close> minifier_loop_exit [OF a]
  show "minifier_loop E failing_state q = Some (Inr (failing_state, q1))" by simp
next
  assume a: "run_strategies (strategies E) failing_state False q = Some (Inr (st1, True, q1))"
  from run_strategies_progress [OF strategies_wrapped a]
  show "progress st1 failing_state" by simp
  from minifier_loop_continue [OF a]
  show "minifier_loop E failing_state q = minifier_loop E st1 q1" .
next
  assume a: "minifier_loop E failing_state q = Some (Inr (final_state, q2))"
  from minifier_loop_result [OF a]
  show "\<exists>q0. run_strategies (strategies E) final_state False q0 =
                  Some (Inr (final_state, False, q2))"
    by blast
  from minifier_loop_result [OF a]
  show "final_state = failing_state \<or> progress final_state failing_state"
    by blast
qed

theorem driver_pass_order_and_exit_witness:
  "run_strategies (strategies (example_externals arity_and_node2)) example_state1 False 6 =
     Some (Inr (example_state1, False, 10)) \<and>
   minifier_loop (example_externals arity_and_node2) example_state1 6 =
     Some (Inr (example_state1, 10)) \<and>
   run_strategies (strategies (example_externals arity_and_node2)) example_state False 1 =
     Some (Inr (example_state1, True, 6)) \<and>
   progress example_state1 example_state \<and>
   minifier_loop (example_externals arity_and_node2) example_state 1 =
     minifier_loop (example_externals arity_and_node2) example_state1 6 \<and>
   minifier_loop (example_externals arity_and_node2) example_state 1 =
     Some (Inr (example_state1, 10)) \<and>
   (\<exists>q0. run_strategies (strategies (example_externals arity_and_node2)) example_state1 False q0 =
            Some (Inr (example_state1, False, 10)))"
proof -
  let ?E = "example_externals arity_and_node2"
  have a: "run_strategies (strategies ?E) example_state1 False 6 =
             Some (Inr (example_state1, False, 10))"
    by code_simp
  have b: "run_strategies (strategies ?E) example_state False 1 =
             Some (Inr (example_state1, True, 6))"
    by code_simp
  note t = driver_pass_order_and_exit [of ?E example_state1 6 example_state1 10]
  note u = driver_pass_order_and_exit [of ?E example_state 1 example_state1 6 example_state1 10]
  from t a have c: "minifier_loop ?E example_state1 6 = Some (Inr (example_state1, 10))"
    by blast
  from u b have d: "progress example_state1 example_state \<and>
      minifier_loop ?E example_state 1 = minifier_loop ?E example_state1 6"
    by blast
  with c have e: "minifier_loop ?E example_state 1 = Some (Inr (example_state1, 10))"
    by simp
  with u have f: "\<exists>q0. run_strategies (strategies ?E) example_state1 False q0 =
            Some (Inr (example_state1, False, 10))"
    by blast
  from a b c d e f show ?thesis by blast
qed

text \<open>
  C5 fails on the code in its last part: the state the loop exits with is not what is
  returned.  In \<open>unused_input_graph\<close> the second of two placeholders has no consumer,
  and the predicate \<open>arity_and_node2\<close> holds when there are as many inputs as
  placeholders and node 2 is still an operation.  The first pass accepts the state of
  \<^verbatim>\<open>remove_unused_inputs\<close>, the graph without the second placeholder together with
  the input list \<open>[Tensor 7]\<close>; the second pass makes no progress, and the loop exits
  with this state after nine queries.  Line 233 returns the graph of this state with
  the original input list \<open>[Tensor 7, Tensor 8]\<close>: the returned pair is not the last
  accepted state, and the predicate does not hold of it.
\<close>

theorem last_accepted_state_is_not_returned:
  "propagate (example_externals arity_and_node2) unused_input_graph [Tensor 7, Tensor 8] =
     Inr (annotated arity_and_node2 unused_input_graph [Tensor 7, Tensor 8]) \<and>
   graph_fails (example_externals arity_and_node2)
     (annotated arity_and_node2 unused_input_graph [Tensor 7, Tensor 8])
     [Tensor 7, Tensor 8] 0 = Inr (True, 1) \<and>
   run_strategies (strategies (example_externals arity_and_node2))
     \<lparr>graph = annotated arity_and_node2 unused_input_graph [Tensor 7, Tensor 8],
      inps = [Tensor 7, Tensor 8]\<rparr> False 1 =
     Some (Inr (\<lparr>graph = unused_input_result, inps = [Tensor 7]\<rparr>, True, 6)) \<and>
   run_strategies (strategies (example_externals arity_and_node2))
     \<lparr>graph = unused_input_result, inps = [Tensor 7]\<rparr> False 6 =
     Some (Inr (\<lparr>graph = unused_input_result, inps = [Tensor 7]\<rparr>, False, 9)) \<and>
   minifier_loop (example_externals arity_and_node2)
     \<lparr>graph = annotated arity_and_node2 unused_input_graph [Tensor 7, Tensor 8],
      inps = [Tensor 7, Tensor 8]\<rparr> 1 =
     Some (Inr (\<lparr>graph = unused_input_result, inps = [Tensor 7]\<rparr>, 9)) \<and>
   minifier (example_externals arity_and_node2) unused_input_graph [Tensor 7, Tensor 8] =
     Some (Inr ((unused_input_result, [Tensor 7, Tensor 8]), 9)) \<and>
   module_fails (example_externals arity_and_node2) unused_input_result [Tensor 7] \<and>
   \<not> module_fails (example_externals arity_and_node2) unused_input_result [Tensor 7, Tensor 8]"
  by code_simp

text \<open>
  What a run that returns guarantees: the returned input list is the one the minifier
  was given; the returned graph is valid and has no more nodes than the original one;
  and the predicate holds of the returned graph together with some input list, that of
  the last accepted state.
\<close>

lemma run_strategies_accepted:
  assumes "\<forall>s \<in> set ss. \<exists>str. s = register_strategy E str"
    and "run_strategies ss st a q = Some (Inr (st1, a1, q1))"
  shows "st1 = st \<or> (lint E (graph st1) \<and> module_fails E (graph st1) (inps st1))"
  using assms
proof (induction ss arbitrary: st a q)
  case Nil
  then show ?case by simp
next
  case (Cons s ss)
  from Cons.prems(1) obtain str where s: "s = register_strategy E str" by auto
  from Cons.prems(1) have rest: "\<forall>s \<in> set ss. \<exists>str. s = register_strategy E str" by simp
  show ?case
  proof (cases "s st q")
    case None
    with Cons.prems(2) show ?thesis by simp
  next
    case (Some r)
    show ?thesis
    proof (cases r)
      case (Inl e)
      with Some Cons.prems(2) show ?thesis by simp
    next
      case (Inr p)
      obtain o' q' where p: "p = (o', q')" by (cases p)
      show ?thesis
      proof (cases o')
        case None
        with Some Inr p Cons.prems(2) have "run_strategies ss st a q' = Some (Inr (st1, a1, q1))"
          by simp
        from Cons.IH [OF rest this] show ?thesis .
      next
        case (Some new_state)
        with \<open>s st q = Some r\<close> Inr p Cons.prems(2)
        have run: "run_strategies ss new_state True q' = Some (Inr (st1, a1, q1))"
          by simp
        from \<open>s st q = Some r\<close> Inr p Some s
        have "register_strategy E str st q = Some (Inr (Some new_state, q'))" by simp
        then have "lint E (graph new_state) \<and> module_fails E (graph new_state) (inps new_state)"
          using register_strategy_Some by blast
        with Cons.IH [OF rest run] show ?thesis by auto
      qed
    qed
  qed
qed

lemma minifier_loop_accepted:
  assumes "minifier_loop E st q = Some r"
  shows "\<forall>st' q'. r = Inr (st', q') \<longrightarrow>
           st' = st \<or> (lint E (graph st') \<and> module_fails E (graph st') (inps st'))"
proof (rule minifier_loop.raw_induct [OF _ assms], goal_cases)
  case (1 loop E st q r)
  show ?case
  proof (cases "run_strategies (strategies E) st False q")
    case None
    with 1(2) show ?thesis by simp
  next
    case (Some x)
    show ?thesis
    proof (cases x)
      case (Inl e)
      with Some 1(2) show ?thesis by auto
    next
      case (Inr p)
      obtain st1 a q1 where p: "p = (st1, a, q1)" by (cases p)
      from Some Inr p
      have run: "run_strategies (strategies E) st False q = Some (Inr (st1, a, q1))" by simp
      note acc = run_strategies_accepted [OF strategies_wrapped run]
      show ?thesis
      proof (cases a)
        case False
        with Some Inr p 1(2) have "r = Inr (st1, q1)" by simp
        with acc show ?thesis by auto
      next
        case True
        with Some Inr p 1(2) have "loop E st1 q1 = Some r" by simp
        from 1(1) [OF this] acc show ?thesis by auto
      qed
    qed
  qed
qed

lemma run_nodes_length: "run_nodes E g is ns = Inr ns1 \<Longrightarrow> length ns1 = length ns"
  by (induction ns arbitrary: ns1) (auto split: sum.splits)

lemma minifier_result:
  assumes "minifier E fail_f is = Some (Inr ((g, is'), q))"
  shows "is' = is \<and> lint E g \<and> length g \<le> length fail_f \<and>
         (\<exists>is1. module_fails E g is1 \<and>
            (length g < length fail_f \<or> length is \<le> length is1))"
proof -
  from assms obtain f where run: "propagate E fail_f is = Inr f"
    by (auto simp: minifier_def split: sum.splits)
  let ?f = f
  let ?st = "\<lparr>graph = ?f, inps = is\<rparr>"
  from assms run obtain q0 st' where
    init: "graph_fails E ?f is 0 = Inr (True, q0)"
    and loop: "minifier_loop E ?st q0 = Some (Inr (st', q))"
    and res: "g = graph st'" "is' = is"
    by (auto simp: minifier_def Let_def split: sum.splits prod.splits if_splits option.splits)
  from init have ok: "lint E ?f \<and> module_fails E ?f is"
    by (auto simp: graph_fails_def split: if_splits)
  from minifier_loop_accepted [OF loop]
  have acc: "st' = ?st \<or> (lint E (graph st') \<and> module_fails E (graph st') (inps st'))"
    by simp
  from minifier_loop_result [OF loop]
  have pr: "st' = ?st \<or> progress st' ?st" by simp
  from run have len: "length ?f = length fail_f"
    by (simp add: propagate_def run_nodes_length)
  from ok acc pr res len show ?thesis
    by (auto simp: progress_def)
qed

text \<open>
  C1 fails on the code.  The loop ends with the state
  \<open>(example_result, [Tensor 7, Tensor 1])\<close>, which reproduces the failure, but line 233
  returns the graph of this state with the original input list \<open>[Tensor 7]\<close>, and the
  predicate does not hold of this pair.
\<close>

theorem returned_inputs_are_the_original_ones:
  "minifier (example_externals arity_and_node2) example_graph [Tensor 7] =
     Some (Inr ((example_result, [Tensor 7]), 10)) \<and>
   minifier_loop (example_externals arity_and_node2) example_state 1 =
     Some (Inr (\<lparr>graph = example_result, inps = [Tensor 7, Tensor 1]\<rparr>, 10)) \<and>
   module_fails (example_externals arity_and_node2) example_result [Tensor 7, Tensor 1] \<and>
   \<not> module_fails (example_externals arity_and_node2) example_result [Tensor 7]"
  by code_simp

end
